theory Spec2Isabelle
  imports Main "HOL-Library.Word"
begin

section \<open>The profiling runtime (profile\_runtime.c): data model\<close>

text \<open>
  C \<open>int\<close> values (function ids, depths, counts, array indices) are modelled as \<open>int\<close>:
  every one of them is kept inside a small range by the guards of the code, so no
  wrap-around can occur. The \<open>uint64_t\<close> counters and clock values are 64-bit words,
  whose \<open>+\<close> and \<open>-\<close> wrap as in C. A fixed-size C array is a total function from
  the index to the element; every access in the code is guarded by a bounds check or
  by a loop bound, which the model keeps, and the last section proves that the indices
  stay within the arrays in every state that is reached. A \<open>const char*\<close> is a
  \<open>string option\<close>, \<open>None\<close> being the NULL pointer. One thread is modelled; the
  unsynchronized access of several threads to the shared tables is not.
\<close>

type_synonym u64 = "64 word"

definition MAX_FUNCTIONS :: int where
  "MAX_FUNCTIONS = 4096"

definition MAX_CALL_DEPTH :: int where
  "MAX_CALL_DEPTH = 256"

definition MAX_STACK_SAMPLES :: int where
  "MAX_STACK_SAMPLES = 65536"

record FunctionProfile =
  name :: "string option"
  call_count :: u64
  total_time_ns :: u64

record StackSample =
  func_ids :: "int \<Rightarrow> int"
  depth :: int
  time_ns :: u64

record CallStackEntry =
  func_id :: int
  entry_time :: u64

text \<open>
  The file-scope variables and the thread-local variables of the one thread that is
  modelled.
\<close>

record profiler =
  g_profiles :: "int \<Rightarrow> FunctionProfile"
  g_num_functions :: int
  g_output_path :: string
  g_initialized :: int
  g_stack_samples :: "int \<Rightarrow> StackSample"
  g_num_stack_samples :: int
  tls_call_stack :: "int \<Rightarrow> CallStackEntry"
  tls_stack_depth :: int
  tls_current_stack :: "int \<Rightarrow> int"

text \<open>The state of the statics when the program starts: everything zero, the default path.\<close>

definition startup :: profiler where
  "startup =
     \<lparr> g_profiles = (\<lambda>_. \<lparr> name = None, call_count = 0, total_time_ns = 0 \<rparr>),
       g_num_functions = 0,
       g_output_path = ''konpeito_profile.json'',
       g_initialized = 0,
       g_stack_samples = (\<lambda>_. \<lparr> func_ids = (\<lambda>_. 0), depth = 0, time_ns = 0 \<rparr>),
       g_num_stack_samples = 0,
       tls_call_stack = (\<lambda>_. \<lparr> func_id = 0, entry_time = 0 \<rparr>),
       tls_stack_depth = 0,
       tls_current_stack = (\<lambda>_. 0) \<rparr>"

section \<open>The stack sample aggregator\<close>

text \<open>The inner loop of \<open>find_or_create_stack_sample\<close>: compare the ids from \<open>j\<close> on.\<close>

function ids_match :: "(int \<Rightarrow> int) \<Rightarrow> (int \<Rightarrow> int) \<Rightarrow> int \<Rightarrow> int \<Rightarrow> bool" where
  "ids_match ids stack d j =
     (if j < d then (if ids j \<noteq> stack j then False else ids_match ids stack d (j + 1))
      else True)"
  by pat_completeness auto
termination
  by (relation "measure (\<lambda>(ids, stack, d, j). nat (d - j))") auto

declare ids_match.simps [simp del]

text \<open>The outer loop: the first index from \<open>i\<close> on whose sample has this stack.\<close>

function search_samples :: "profiler \<Rightarrow> (int \<Rightarrow> int) \<Rightarrow> int \<Rightarrow> int \<Rightarrow> int option" where
  "search_samples s stack d i =
     (if i < g_num_stack_samples s then
        (if depth (g_stack_samples s i) = d
            \<and> ids_match (func_ids (g_stack_samples s i)) stack d 0
         then Some i
         else search_samples s stack d (i + 1))
      else None)"
  by pat_completeness auto
termination
  by (relation "measure (\<lambda>(s, stack, d, i). nat (g_num_stack_samples s - i))") auto

declare search_samples.simps [simp del]

text \<open>The loop that copies the stack into a new sample.\<close>

function copy_ids :: "(int \<Rightarrow> int) \<Rightarrow> (int \<Rightarrow> int) \<Rightarrow> int \<Rightarrow> int \<Rightarrow> (int \<Rightarrow> int)" where
  "copy_ids ids stack d j =
     (if j < d then copy_ids (ids(j := stack j)) stack d (j + 1) else ids)"
  by pat_completeness auto
termination
  by (relation "measure (\<lambda>(ids, stack, d, j). nat (d - j))") auto

declare copy_ids.simps [simp del]

text \<open>
  \<open>find_or_create_stack_sample\<close> returns the index of the sample, or \<open>-1\<close> when the
  stack is new and the table is full, together with the state it leaves.
\<close>

definition find_or_create_stack_sample ::
    "(int \<Rightarrow> int) \<Rightarrow> int \<Rightarrow> profiler \<Rightarrow> int \<times> profiler" where
  "find_or_create_stack_sample stack d s =
     (case search_samples s stack d 0 of
        Some i \<Rightarrow> (i, s)
      | None \<Rightarrow>
          if g_num_stack_samples s \<ge> MAX_STACK_SAMPLES then (- 1, s)
          else
            let idx = g_num_stack_samples s;
                old = g_stack_samples s idx;
                new = old \<lparr> depth := d,
                            func_ids := copy_ids (func_ids old) stack d 0,
                            time_ns := 0 \<rparr>
            in (idx, s \<lparr> g_num_stack_samples := idx + 1,
                          g_stack_samples := (g_stack_samples s)(idx := new) \<rparr>))"

definition record_stack_time :: "u64 \<Rightarrow> profiler \<Rightarrow> profiler" where
  "record_stack_time t s =
     (if tls_stack_depth s \<le> 0 then s
      else
        let (idx, s') = find_or_create_stack_sample (tls_current_stack s) (tls_stack_depth s) s
        in if idx \<ge> 0
           then s' \<lparr> g_stack_samples := (g_stack_samples s')
                        (idx := (g_stack_samples s' idx)
                           \<lparr> time_ns := time_ns (g_stack_samples s' idx) + t \<rparr>) \<rparr>
           else s')"

section \<open>The instrumentation API\<close>

text \<open>The loop of \<open>konpeito_profile_init\<close> that clears the function table from \<open>i\<close> on.\<close>

function clear_profiles :: "(int \<Rightarrow> FunctionProfile) \<Rightarrow> int \<Rightarrow> (int \<Rightarrow> FunctionProfile)" where
  "clear_profiles ps i =
     (if i < MAX_FUNCTIONS
      then clear_profiles
             (ps(i := (ps i) \<lparr> name := None, call_count := 0, total_time_ns := 0 \<rparr>)) (i + 1)
      else ps)"
  by pat_completeness auto
termination
  by (relation "measure (\<lambda>(ps, i). nat (MAX_FUNCTIONS - i))") auto

declare clear_profiles.simps [simp del]

text \<open>
  \<open>konpeito_profile_init\<close>. The path is copied only when it is not NULL and shorter than
  the buffer of 1024 bytes. Registering the exit handler has no effect on the state.
\<close>

definition konpeito_profile_init :: "int \<Rightarrow> string option \<Rightarrow> profiler \<Rightarrow> profiler" where
  "konpeito_profile_init num_functions output_path s =
     (if g_initialized s \<noteq> 0 then s
      else s \<lparr> g_num_functions :=
                   (if num_functions < MAX_FUNCTIONS then num_functions else MAX_FUNCTIONS),
               g_output_path :=
                   (case output_path of
                      Some p \<Rightarrow> if length p < 1024 then p else g_output_path s
                    | None \<Rightarrow> g_output_path s),
               g_profiles := clear_profiles (g_profiles s) 0,
               g_initialized := 1 \<rparr>)"

text \<open>
  \<open>konpeito_profile_enter\<close>; \<open>now\<close> is the value \<open>get_time_ns\<close> returns in this call.
\<close>

definition konpeito_profile_enter :: "int \<Rightarrow> string option \<Rightarrow> u64 \<Rightarrow> profiler \<Rightarrow> profiler" where
  "konpeito_profile_enter fid func_name now s =
     (if g_initialized s = 0 then s
      else if fid < 0 \<or> fid \<ge> MAX_FUNCTIONS then s
      else if tls_stack_depth s \<ge> MAX_CALL_DEPTH then s
      else
        let p = g_profiles s fid;
            p1 = (if name p = None then p \<lparr> name := func_name \<rparr> else p);
            p2 = p1 \<lparr> call_count := call_count p1 + 1 \<rparr>;
            sd = tls_stack_depth s
        in s \<lparr> g_profiles := (g_profiles s)(fid := p2),
                tls_call_stack := (tls_call_stack s)
                   (sd := \<lparr> func_id = fid, entry_time = now \<rparr>),
                tls_current_stack := (tls_current_stack s)(sd := fid),
                tls_stack_depth := sd + 1 \<rparr>)"

text \<open>
  \<open>konpeito_profile_exit\<close>; \<open>now\<close> is the value \<open>get_time_ns\<close> returns in this call.
\<close>

definition konpeito_profile_exit :: "int \<Rightarrow> u64 \<Rightarrow> profiler \<Rightarrow> profiler" where
  "konpeito_profile_exit fid now s =
     (if g_initialized s = 0 then s
      else if fid < 0 \<or> fid \<ge> MAX_FUNCTIONS then s
      else if tls_stack_depth s \<le> 0 then s
      else
        let top = tls_call_stack s (tls_stack_depth s - 1);
            s1 = (if func_id top = fid
                  then
                    let elapsed = now - entry_time top;
                        p = g_profiles s fid
                    in record_stack_time elapsed
                         (s \<lparr> g_profiles := (g_profiles s)
                                 (fid := p \<lparr> total_time_ns := total_time_ns p + elapsed \<rparr>) \<rparr>)
                  else s)
        in s1 \<lparr> tls_stack_depth := tls_stack_depth s1 - 1 \<rparr>)"

section \<open>The report writer\<close>

text \<open>\<open>write_json_string\<close>: the characters written for the body of the string.\<close>

definition json_escape :: "char \<Rightarrow> string" where
  "json_escape c =
     (if c = CHR 0x22 then [CHR 0x5C, CHR 0x22]
      else if c = CHR 0x5C then [CHR 0x5C, CHR 0x5C]
      else if c = CHR 0x0A then [CHR 0x5C, CHR ''n'']
      else if c = CHR 0x0D then [CHR 0x5C, CHR ''r'']
      else if c = CHR 0x09 then [CHR 0x5C, CHR ''t'']
      else [c])"

primrec json_chars :: "string \<Rightarrow> string" where
  "json_chars [] = []"
| "json_chars (c # cs) = json_escape c @ json_chars cs"

definition write_json_string :: "string \<Rightarrow> string" where
  "write_json_string str = [CHR 0x22] @ json_chars str @ [CHR 0x22]"

text \<open>
  The C library's \<open>strstr\<close>: the offset of the first occurrence of the needle, \<open>None\<close>
  for the NULL it returns when there is none.
\<close>

fun strstr :: "string \<Rightarrow> string \<Rightarrow> nat option" where
  "strstr [] needle = (if needle = [] then Some 0 else None)"
| "strstr (c # cs) needle =
     (if take (length needle) (c # cs) = needle then Some 0
      else map_option Suc (strstr cs needle))"

text \<open>
  The path of the folded file, as the head of \<open>write_flame_graph_folded\<close> computes it
  in its buffer of 1024 bytes. \<open>strncpy\<close> keeps at most 1023 characters; \<open>strcpy\<close> at
  offset \<open>k\<close> writes the 7 characters and the terminator, which must fit in the buffer:
  where they do not, the C code writes past the buffer and the result is \<open>None\<close>;
  \<open>strncat\<close> appends as many characters of the suffix as the buffer has room for.
\<close>

definition folded_path :: "string \<Rightarrow> string option" where
  "folded_path out_path =
     (let fp = take 1023 out_path
      in case strstr fp ''.json'' of
           Some k \<Rightarrow> if k + 8 \<le> 1024 then Some (take k fp @ ''.folded'') else None
         | None \<Rightarrow> Some (fp @ take (1024 - length fp - 1) ''.folded''))"

text \<open>The loop that writes the names of one sample, from entry \<open>j\<close> on.\<close>

function write_stack :: "(int \<Rightarrow> FunctionProfile) \<Rightarrow> StackSample \<Rightarrow> int \<Rightarrow> string" where
  "write_stack ps smp j =
     (if j < depth smp then
        (case name (ps (func_ids smp j)) of
           Some nm \<Rightarrow> (if j > 0 then '';'' else '''') @ nm
         | None \<Rightarrow> '''')
        @ write_stack ps smp (j + 1)
      else '''')"
  by pat_completeness auto
termination
  by (relation "measure (\<lambda>(ps, smp, j). nat (depth smp - j))") auto

declare write_stack.simps [simp del]

text \<open>The sample count printed for an accumulated time.\<close>

definition sample_count :: "u64 \<Rightarrow> u64" where
  "sample_count t = (let samples = t div 1000 in if samples = 0 then 1 else samples)"

text \<open>
  The loop over the samples, from index \<open>i\<close> on: one line per sample whose time is not
  zero, as the pair of the name list and the count printed after it.
\<close>

function write_samples :: "profiler \<Rightarrow> int \<Rightarrow> (string \<times> u64) list" where
  "write_samples s i =
     (if i < g_num_stack_samples s then
        (if time_ns (g_stack_samples s i) = 0 then write_samples s (i + 1)
         else (write_stack (g_profiles s) (g_stack_samples s i) 0,
               sample_count (time_ns (g_stack_samples s i)))
              # write_samples s (i + 1))
      else [])"
  by pat_completeness auto
termination
  by (relation "measure (\<lambda>(s, i). nat (g_num_stack_samples s - i))") auto

declare write_samples.simps [simp del]

text \<open>Decimal digits, as \<open>%llu\<close> prints them, and the text of one line.\<close>

function dec :: "nat \<Rightarrow> string" where
  "dec n = (if n < 10 then [char_of (48 + n)] else dec (n div 10) @ [char_of (48 + n mod 10)])"
  by pat_completeness auto
termination
  by (relation "measure id") auto

declare dec.simps [simp del]

definition folded_line :: "string \<times> u64 \<Rightarrow> string" where
  "folded_line l = fst l @ '' '' @ dec (unat (snd l)) @ [CHR 0x0A]"

datatype folded_outcome =
    Folded_overrun
  | Folded_not_opened string
  | Folded_written string "(string \<times> u64) list"

text \<open>
  \<open>write_flame_graph_folded\<close>; \<open>can_open\<close> tells for which paths \<open>fopen\<close> succeeds in
  this run.
\<close>

definition write_flame_graph_folded :: "(string \<Rightarrow> bool) \<Rightarrow> profiler \<Rightarrow> folded_outcome" where
  "write_flame_graph_folded can_open s =
     (case folded_path (g_output_path s) of
        None \<Rightarrow> Folded_overrun
      | Some fp \<Rightarrow>
          if \<not> can_open fp then Folded_not_opened fp
          else Folded_written fp (write_samples s 0))"

text \<open>The loop that sums the times of the named functions, from id \<open>i\<close> on.\<close>

function sum_total_time :: "profiler \<Rightarrow> int \<Rightarrow> u64 \<Rightarrow> u64" where
  "sum_total_time s i tot =
     (if i < g_num_functions s
      then sum_total_time s (i + 1)
             (if name (g_profiles s i) \<noteq> None then tot + total_time_ns (g_profiles s i)
              else tot)
      else tot)"
  by pat_completeness auto
termination
  by (relation "measure (\<lambda>(s, i, tot). nat (g_num_functions s - i))") auto

declare sum_total_time.simps [simp del]

text \<open>
  The loop that writes the entries of the JSON array, from id \<open>i\<close> on. An entry is kept
  as the escaped name, the call count and the time in nanoseconds; \<open>time_ms\<close> and
  \<open>percent\<close> are floating-point values that the C code derives from that time and the
  total, and are not modelled.
\<close>

function json_functions :: "profiler \<Rightarrow> int \<Rightarrow> (string \<times> u64 \<times> u64) list" where
  "json_functions s i =
     (if i < g_num_functions s then
        (case name (g_profiles s i) of
           None \<Rightarrow> json_functions s (i + 1)
         | Some nm \<Rightarrow>
             (write_json_string nm, call_count (g_profiles s i), total_time_ns (g_profiles s i))
             # json_functions s (i + 1))
      else [])"
  by pat_completeness auto
termination
  by (relation "measure (\<lambda>(s, i). nat (g_num_functions s - i))") auto

declare json_functions.simps [simp del]

definition truncated_name :: "string \<Rightarrow> string" where
  "truncated_name nm = (if length nm > 40 then take 37 nm @ ''...'' else take 40 nm)"

text \<open>The loop that prints the rows of the console table, from id \<open>i\<close> on.\<close>

function console_rows :: "profiler \<Rightarrow> int \<Rightarrow> (string \<times> u64 \<times> u64) list" where
  "console_rows s i =
     (if i < g_num_functions s then
        (case name (g_profiles s i) of
           None \<Rightarrow> console_rows s (i + 1)
         | Some nm \<Rightarrow>
             (truncated_name nm, call_count (g_profiles s i), total_time_ns (g_profiles s i))
             # console_rows s (i + 1))
      else [])"
  by pat_completeness auto
termination
  by (relation "measure (\<lambda>(s, i). nat (g_num_functions s - i))") auto

declare console_rows.simps [simp del]

text \<open>
  What one run of \<open>konpeito_profile_finalize\<close> writes: the folded file, and, when the
  JSON file can be opened, the total time, the JSON entries and the console rows.
\<close>

record summary =
  total_time :: u64
  json_entries :: "(string \<times> u64 \<times> u64) list"
  console_table :: "(string \<times> u64 \<times> u64) list"

record artifacts =
  folded_out :: folded_outcome
  summary_out :: "summary option"

definition write_summary :: "profiler \<Rightarrow> summary" where
  "write_summary s =
     \<lparr> total_time = sum_total_time s 0 0,
       json_entries = json_functions s 0,
       console_table = console_rows s 0 \<rparr>"

definition konpeito_profile_finalize ::
    "(string \<Rightarrow> bool) \<Rightarrow> profiler \<Rightarrow> profiler \<times> artifacts option" where
  "konpeito_profile_finalize can_open s =
     (if g_initialized s = 0 then (s, None)
      else
        let s' = s \<lparr> g_initialized := 0 \<rparr>;
            f = write_flame_graph_folded can_open s'
        in (s', Some \<lparr> folded_out = f,
                        summary_out =
                          (if \<not> can_open (g_output_path s') then None
                           else Some (write_summary s')) \<rparr>))"

section \<open>Sequences of calls\<close>

text \<open>
  One call of the API, with what it reads from its environment: the clock value for
  \<open>enter\<close> and \<open>exit\<close>, the paths that can be opened for \<open>finalize\<close>.
\<close>

datatype call =
    Init int "string option"
  | Enter int "string option" u64
  | Exit int u64
  | Finalize "string \<Rightarrow> bool"

fun step :: "call \<Rightarrow> profiler \<Rightarrow> profiler" where
  "step (Init n p) s = konpeito_profile_init n p s"
| "step (Enter f nm t) s = konpeito_profile_enter f nm t s"
| "step (Exit f t) s = konpeito_profile_exit f t s"
| "step (Finalize can_open) s = fst (konpeito_profile_finalize can_open s)"

fun run :: "call list \<Rightarrow> profiler \<Rightarrow> profiler" where
  "run [] s = s"
| "run (c # cs) s = run cs (step c s)"

section \<open>Vocabulary of the properties\<close>

subsection \<open>Stacks and samples\<close>

text \<open>
  A sample has the stack \<open>stack\<close> of depth \<open>d\<close>: the same length, and the same ids at
  every index below it.
\<close>

definition same_shape :: "StackSample \<Rightarrow> (int \<Rightarrow> int) \<Rightarrow> int \<Rightarrow> bool" where
  "same_shape smp stack d \<longleftrightarrow> depth smp = d \<and> (\<forall>j. 0 \<le> j \<and> j < d \<longrightarrow> func_ids smp j = stack j)"

text \<open>No sample of the table has the stack.\<close>

definition shape_absent :: "profiler \<Rightarrow> (int \<Rightarrow> int) \<Rightarrow> int \<Rightarrow> bool" where
  "shape_absent s stack d \<longleftrightarrow>
     (\<forall>k. 0 \<le> k \<and> k < g_num_stack_samples s \<longrightarrow> \<not> same_shape (g_stack_samples s k) stack d)"

text \<open>Two stacks hold the same ids below the depth \<open>d\<close>.\<close>

definition stacks_agree :: "int \<Rightarrow> (int \<Rightarrow> int) \<Rightarrow> (int \<Rightarrow> int) \<Rightarrow> bool" where
  "stacks_agree d st st' \<longleftrightarrow> (\<forall>j. 0 \<le> j \<and> j < d \<longrightarrow> st j = st' j)"

text \<open>The ids of all frames of the thread's stack are ids of the function table.\<close>

definition frames_in_range :: "profiler \<Rightarrow> bool" where
  "frames_in_range s \<longleftrightarrow>
     (\<forall>i. 0 \<le> i \<and> i < tls_stack_depth s \<longrightarrow>
        0 \<le> func_id (tls_call_stack s i) \<and> func_id (tls_call_stack s i) < MAX_FUNCTIONS)"

text \<open>Two states have the same entries of the function table from \<open>i\<close> up to \<open>n\<close>.\<close>

definition profiles_agree :: "int \<Rightarrow> int \<Rightarrow> profiler \<Rightarrow> profiler \<Rightarrow> bool" where
  "profiles_agree i n s s' \<longleftrightarrow> (\<forall>k. i \<le> k \<and> k < n \<longrightarrow> g_profiles s' k = g_profiles s k)"

text \<open>
  Every sample of the table has between 1 and \<open>MAX_CALL_DEPTH\<close> entries, and its ids
  are ids of the function table.
\<close>

definition samples_in_range :: "profiler \<Rightarrow> bool" where
  "samples_in_range s \<longleftrightarrow>
     (\<forall>k. 0 \<le> k \<and> k < g_num_stack_samples s \<longrightarrow>
        0 < depth (g_stack_samples s k) \<and> depth (g_stack_samples s k) \<le> MAX_CALL_DEPTH
        \<and> (\<forall>j. 0 \<le> j \<and> j < depth (g_stack_samples s k) \<longrightarrow>
              0 \<le> func_ids (g_stack_samples s k) j
              \<and> func_ids (g_stack_samples s k) j < MAX_FUNCTIONS))"

text \<open>No two samples of the table have the same stack.\<close>

definition shapes_distinct :: "profiler \<Rightarrow> bool" where
  "shapes_distinct s \<longleftrightarrow>
     (\<forall>k k'. 0 \<le> k \<and> k < k' \<and> k' < g_num_stack_samples s \<longrightarrow>
        \<not> same_shape (g_stack_samples s k)
             (func_ids (g_stack_samples s k')) (depth (g_stack_samples s k')))"

text \<open>
  The bounds that the code keeps: the depth of the thread's stack and the size of the
  sample table are within their arrays, the ids of the frames and of the samples are
  within the function table, the two arrays of the thread hold the same ids, and the
  samples differ from one another.
\<close>

definition in_bounds :: "profiler \<Rightarrow> bool" where
  "in_bounds s \<longleftrightarrow>
     0 \<le> tls_stack_depth s \<and> tls_stack_depth s \<le> MAX_CALL_DEPTH
     \<and> 0 \<le> g_num_stack_samples s \<and> g_num_stack_samples s \<le> MAX_STACK_SAMPLES
     \<and> frames_in_range s
     \<and> stacks_agree (tls_stack_depth s) (tls_current_stack s) (\<lambda>i. func_id (tls_call_stack s i))
     \<and> samples_in_range s
     \<and> shapes_distinct s"

subsection \<open>Sequences of calls\<close>






fun no_finalize :: "call list \<Rightarrow> bool" where
  "no_finalize [] = True"
| "no_finalize (Finalize can_open # cs) = False"
| "no_finalize (c # cs) = no_finalize cs"

fun enters_only :: "call list \<Rightarrow> bool" where
  "enters_only [] = True"
| "enters_only (Enter f nm t # cs) = enters_only cs"
| "enters_only (c # cs) = False"

text \<open>
  The exits that leave the top frames of a stack of depth \<open>d\<close>, one for each clock
  value of the list, each with the id of the frame it leaves; and the time these exits
  add to a function \<open>f\<close>: the elapsed times of the frames of \<open>f\<close> among them.
\<close>

fun exits_for :: "(int \<Rightarrow> CallStackEntry) \<Rightarrow> int \<Rightarrow> u64 list \<Rightarrow> call list" where
  "exits_for stk d [] = []"
| "exits_for stk d (t # ts) = Exit (func_id (stk (d - 1))) t # exits_for stk (d - 1) ts"

fun attributed :: "(int \<Rightarrow> CallStackEntry) \<Rightarrow> int \<Rightarrow> u64 list \<Rightarrow> int \<Rightarrow> u64" where
  "attributed stk d [] f = 0"
| "attributed stk d (t # ts) f =
     (if func_id (stk (d - 1)) = f then t - entry_time (stk (d - 1)) else 0)
     + attributed stk (d - 1) ts f"

subsection \<open>The folded file\<close>

text \<open>The line of the sample at index \<open>k\<close>: its name list and its count.\<close>

definition sample_line :: "profiler \<Rightarrow> int \<Rightarrow> string \<times> u64" where
  "sample_line s k =
     (write_stack (g_profiles s) (g_stack_samples s k) 0,
      sample_count (time_ns (g_stack_samples s k)))"

text \<open>
  The registered names of the entries of a sample from index \<open>j\<close> on, outermost first,
  and the join of a list of names with semicolons.
\<close>

definition names_from :: "(int \<Rightarrow> FunctionProfile) \<Rightarrow> StackSample \<Rightarrow> int \<Rightarrow> string list" where
  "names_from ps smp j = List.map_filter (\<lambda>k. name (ps (func_ids smp k))) [j..depth smp - 1]"

fun join_names :: "string list \<Rightarrow> string" where
  "join_names [] = []"
| "join_names [x] = x"
| "join_names (x # y # ys) = x @ '';'' @ join_names (y # ys)"

text \<open>
  \<open>.json\<close> stands at offset \<open>k\<close> of a path; a path ends in \<open>.json\<close>; \<open>.json\<close> stands
  nowhere in a path but, possibly, at its end.
\<close>

definition json_at :: "string \<Rightarrow> nat \<Rightarrow> bool" where
  "json_at p k \<longleftrightarrow> take 5 (drop k p) = ''.json''"

definition ends_with_json :: "string \<Rightarrow> bool" where
  "ends_with_json p \<longleftrightarrow> 5 \<le> length p \<and> json_at p (length p - 5)"

definition json_only_suffix :: "string \<Rightarrow> bool" where
  "json_only_suffix p \<longleftrightarrow> (\<forall>k < length p. json_at p k \<longrightarrow> k + 5 = length p)"

subsection \<open>States and runs of the examples\<close>

text \<open>A table of \<open>MAX_STACK_SAMPLES\<close> samples of depth 2, and a thread with one frame.\<close>

definition full_table :: profiler where
  "full_table = startup
     \<lparr> g_initialized := 1,
       g_stack_samples := (\<lambda>i. \<lparr> func_ids = (\<lambda>j. if j = 0 then i div 256 else i mod 256),
                                 depth = 2, time_ns = 1 \<rparr>),
       g_num_stack_samples := 65536,
       tls_call_stack := (\<lambda>_. \<lparr> func_id = 7, entry_time = 100 \<rparr>),
       tls_current_stack := (\<lambda>_. 7),
       tls_stack_depth := 1 \<rparr>"


text \<open>A stack of 256 frames of the functions 0, 1 and 2 in turn.\<close>

definition at_max_depth :: profiler where
  "at_max_depth = startup
     \<lparr> g_initialized := 1,
       tls_call_stack := (\<lambda>i. \<lparr> func_id = i mod 3, entry_time = 100 \<rparr>),
       tls_current_stack := (\<lambda>i. i mod 3),
       tls_stack_depth := 256 \<rparr>"

text \<open>
  The state after initialization and 256 nested enters: 254 calls of function 1, then
  one of function 2 and one of function 3, all at clock value 100.
\<close>

definition deep_stack :: profiler where
  "deep_stack =
     run (Init 10 None # replicate 254 (Enter 1 (Some ''a'') 100)
            @ [Enter 2 (Some ''b'') 100, Enter 3 (Some ''c'') 100]) startup"

text \<open>
  At that depth: a call of function 4 is entered and left, then the calls of the
  functions 3 and 2 are left.
\<close>

definition overflow_calls :: "call list" where
  "overflow_calls = [Enter 4 (Some ''d'') 700, Exit 4 800, Exit 3 1000, Exit 2 1500]"

text \<open>
  Three samples with the stacks 0; 0, 1; and 0, 1, 2 and the times 0, 999 and 2500,
  the functions 0 and 1 named \<open>A\<close> and \<open>B\<close>, the others without a name.
\<close>

definition three_samples :: profiler where
  "three_samples = startup
     \<lparr> g_initialized := 1,
       g_profiles := (\<lambda>i. \<lparr> name = (if i = 0 then Some ''A'' else if i = 1 then Some ''B'' else None),
                            call_count = 1, total_time_ns = 5 \<rparr>),
       g_stack_samples := (\<lambda>i. \<lparr> func_ids = (\<lambda>j. j), depth = i + 1,
                                 time_ns = (if i = 0 then 0 else if i = 1 then 999 else 2500) \<rparr>),
       g_num_stack_samples := 3 \<rparr>"

definition demo_calls :: "call list" where
  "demo_calls =
     [Enter 0 (Some ''main'') 10, Enter 1 (Some ''f'') 20, Exit 1 30,
      Enter 1 (Some ''f'') 40, Exit 1 55, Exit 0 60]"


definition two_open :: profiler where
  "two_open = run [Init 10 None, Enter 0 (Some ''a'') 100, Enter 1 (Some ''b'') 200] startup"

definition after_finalize :: profiler where
  "after_finalize =
     run [Init 10 None, Enter 0 (Some ''a'') 100, Exit 0 200, Finalize (\<lambda>_. True)] startup"

text \<open>Function 0 is entered with a NULL name and calls function 1, named \<open>B\<close>.\<close>

definition unnamed_outer :: "call list" where
  "unnamed_outer =
     [Init 10 None, Enter 0 None 0, Enter 1 (Some ''B'') 1000, Exit 1 3000, Exit 0 3000]"

text \<open>A path of 1020 characters without a dot.\<close>

definition long_path :: string where
  "long_path = replicate 1020 (CHR ''a'')"

section \<open>The stack sample aggregator: search and recording\<close>

lemma ids_match_iff:
  "ids_match ids stack d j \<longleftrightarrow> (\<forall>k. j \<le> k \<and> k < d \<longrightarrow> ids k = stack k)"
proof (induction ids stack d j rule: ids_match.induct)
  case (1 ids stack d j)
  show ?case
  proof (cases "j < d")
    case False
    then show ?thesis by (subst ids_match.simps) simp
  next
    case True
    show ?thesis
    proof (cases "ids j = stack j")
      case False
      with True show ?thesis by (subst ids_match.simps) auto
    next
      case eq: True
      have "ids_match ids stack d j = ids_match ids stack d (j + 1)"
        using True eq by (subst ids_match.simps) simp
      also have "\<dots> \<longleftrightarrow> (\<forall>k. j + 1 \<le> k \<and> k < d \<longrightarrow> ids k = stack k)"
        using "1.IH" True eq by simp
      also have "\<dots> \<longleftrightarrow> (\<forall>k. j \<le> k \<and> k < d \<longrightarrow> ids k = stack k)"
      proof
        assume h: "\<forall>k. j + 1 \<le> k \<and> k < d \<longrightarrow> ids k = stack k"
        show "\<forall>k. j \<le> k \<and> k < d \<longrightarrow> ids k = stack k"
        proof (intro allI impI)
          fix k assume "j \<le> k \<and> k < d"
          then have "k = j \<or> (j + 1 \<le> k \<and> k < d)" by arith
          with h eq show "ids k = stack k" by blast
        qed
      qed auto
      finally show ?thesis .
    qed
  qed
qed

lemma sample_test_iff:
  "depth smp = d \<and> ids_match (func_ids smp) stack d 0 \<longleftrightarrow> same_shape smp stack d"
  unfolding same_shape_def ids_match_iff by blast

lemma search_samples_unfold:
  "search_samples s stack d i =
     (if i < g_num_stack_samples s then
        (if same_shape (g_stack_samples s i) stack d then Some i
         else search_samples s stack d (i + 1))
      else None)"
  unfolding sample_test_iff [symmetric] by (rule search_samples.simps)

lemma search_samples_None_iff:
  "search_samples s stack d i = None \<longleftrightarrow>
     (\<forall>k. i \<le> k \<and> k < g_num_stack_samples s \<longrightarrow> \<not> same_shape (g_stack_samples s k) stack d)"
proof (induction s stack d i rule: search_samples.induct)
  case (1 s stack d i)
  show ?case
  proof (cases "i < g_num_stack_samples s")
    case False
    then show ?thesis by (subst search_samples.simps) auto
  next
    case True
    show ?thesis
    proof (cases "same_shape (g_stack_samples s i) stack d")
      case hit: True
      then have "search_samples s stack d i = Some i"
        using True by (subst search_samples_unfold) simp
      with True hit show ?thesis by auto
    next
      case miss: False
      then have "search_samples s stack d i = search_samples s stack d (i + 1)"
        using True by (subst search_samples_unfold) simp
      moreover from miss
      have c: "\<not> (depth (g_stack_samples s i) = d
                 \<and> ids_match (func_ids (g_stack_samples s i)) stack d 0)"
        unfolding sample_test_iff .
      have "(search_samples s stack d (i + 1) = None) \<longleftrightarrow>
         (\<forall>k. i + 1 \<le> k \<and> k < g_num_stack_samples s \<longrightarrow> \<not> same_shape (g_stack_samples s k) stack d)"
        by (rule "1.IH" [OF True c])
      moreover have "(\<forall>k. i + 1 \<le> k \<and> k < g_num_stack_samples s \<longrightarrow> \<not> same_shape (g_stack_samples s k) stack d)
         \<longleftrightarrow> (\<forall>k. i \<le> k \<and> k < g_num_stack_samples s \<longrightarrow> \<not> same_shape (g_stack_samples s k) stack d)"
      proof
        assume h: "\<forall>k. i + 1 \<le> k \<and> k < g_num_stack_samples s \<longrightarrow> \<not> same_shape (g_stack_samples s k) stack d"
        show "\<forall>k. i \<le> k \<and> k < g_num_stack_samples s \<longrightarrow> \<not> same_shape (g_stack_samples s k) stack d"
        proof (intro allI impI)
          fix k assume "i \<le> k \<and> k < g_num_stack_samples s"
          then have "k = i \<or> (i + 1 \<le> k \<and> k < g_num_stack_samples s)" by arith
          with h miss show "\<not> same_shape (g_stack_samples s k) stack d" by blast
        qed
      qed auto
      ultimately show ?thesis by simp
    qed
  qed
qed

lemma search_samples_Some:
  "search_samples s stack d i = Some k \<Longrightarrow>
     i \<le> k \<and> k < g_num_stack_samples s \<and> same_shape (g_stack_samples s k) stack d
     \<and> (\<forall>k'. i \<le> k' \<and> k' < k \<longrightarrow> \<not> same_shape (g_stack_samples s k') stack d)"
proof (induction s stack d i rule: search_samples.induct)
  case (1 s stack d i)
  note unf = search_samples_unfold [of s stack d i]
  show ?case
  proof (cases "i < g_num_stack_samples s")
    case False
    with "1.prems" unf show ?thesis by simp
  next
    case True
    show ?thesis
    proof (cases "same_shape (g_stack_samples s i) stack d")
      case hit: True
      with True unf have "search_samples s stack d i = Some i" by simp
      with "1.prems" have "k = i" by simp
      moreover
      have "\<forall>k'. i \<le> k' \<and> k' < i \<longrightarrow> \<not> same_shape (g_stack_samples s k') stack d"
        by auto
      ultimately show ?thesis using True hit by simp
    next
      case miss: False
      with True unf have "search_samples s stack d i = search_samples s stack d (i + 1)"
        by simp
      with "1.prems" have nxt: "search_samples s stack d (i + 1) = Some k" by simp
      from miss
      have c: "\<not> (depth (g_stack_samples s i) = d
                 \<and> ids_match (func_ids (g_stack_samples s i)) stack d 0)"
        unfolding sample_test_iff .
      have ih: "i + 1 \<le> k \<and> k < g_num_stack_samples s \<and> same_shape (g_stack_samples s k) stack d
        \<and> (\<forall>k'. i + 1 \<le> k' \<and> k' < k \<longrightarrow> \<not> same_shape (g_stack_samples s k') stack d)"
        by (rule "1.IH" [OF True c nxt])
      have "\<forall>k'. i \<le> k' \<and> k' < k \<longrightarrow> \<not> same_shape (g_stack_samples s k') stack d"
      proof (intro allI impI)
        fix k' assume "i \<le> k' \<and> k' < k"
        then have "k' = i \<or> (i + 1 \<le> k' \<and> k' < k)" by arith
        with ih miss show "\<not> same_shape (g_stack_samples s k') stack d" by blast
      qed
      with ih show ?thesis by simp
    qed
  qed
qed

lemma copy_ids_eq:
  "copy_ids ids stack d j = (\<lambda>k. if j \<le> k \<and> k < d then stack k else ids k)"
proof (induction ids stack d j rule: copy_ids.induct)
  case (1 ids stack d j)
  show ?case
  proof (cases "j < d")
    case False
    then show ?thesis by (subst copy_ids.simps) auto
  next
    case True
    then have "copy_ids ids stack d j = copy_ids (ids(j := stack j)) stack d (j + 1)"
      by (subst copy_ids.simps) simp
    also have "\<dots> = (\<lambda>k. if j + 1 \<le> k \<and> k < d then stack k else (ids(j := stack j)) k)"
      by (rule "1.IH" [OF True])
    also have "\<dots> = (\<lambda>k. if j \<le> k \<and> k < d then stack k else ids k)"
    proof (rule ext)
      fix k
      show "(if j + 1 \<le> k \<and> k < d then stack k else (ids(j := stack j)) k) =
            (if j \<le> k \<and> k < d then stack k else ids k)"
        using True by (cases "k = j") auto
    qed
    finally show ?thesis .
  qed
qed

lemma clear_profiles_eq:
  "clear_profiles ps i =
     (\<lambda>k. if i \<le> k \<and> k < MAX_FUNCTIONS
          then (ps k) \<lparr> name := None, call_count := 0, total_time_ns := 0 \<rparr> else ps k)"
proof (induction ps i rule: clear_profiles.induct)
  case (1 ps i)
  show ?case
  proof (cases "i < MAX_FUNCTIONS")
    case False
    then show ?thesis by (subst clear_profiles.simps) (auto simp: fun_eq_iff)
  next
    case True
    let ?ps' = "ps(i := (ps i) \<lparr> name := None, call_count := 0, total_time_ns := 0 \<rparr>)"
    from True have "clear_profiles ps i = clear_profiles ?ps' (i + 1)"
      by (subst clear_profiles.simps) simp
    also have "\<dots> = (\<lambda>k. if i + 1 \<le> k \<and> k < MAX_FUNCTIONS
          then (?ps' k) \<lparr> name := None, call_count := 0, total_time_ns := 0 \<rparr> else ?ps' k)"
      by (rule "1.IH" [OF True])
    also have "\<dots> = (\<lambda>k. if i \<le> k \<and> k < MAX_FUNCTIONS
          then (ps k) \<lparr> name := None, call_count := 0, total_time_ns := 0 \<rparr> else ps k)"
    proof (rule ext)
      fix k
      show "(if i + 1 \<le> k \<and> k < MAX_FUNCTIONS
          then (?ps' k) \<lparr> name := None, call_count := 0, total_time_ns := 0 \<rparr> else ?ps' k) =
         (if i \<le> k \<and> k < MAX_FUNCTIONS
          then (ps k) \<lparr> name := None, call_count := 0, total_time_ns := 0 \<rparr> else ps k)"
        using True by (cases "k = i") auto
    qed
    finally show ?thesis .
  qed
qed

lemma search_absent: "shape_absent s stack d \<Longrightarrow> search_samples s stack d 0 = None"
  by (simp add: search_samples_None_iff shape_absent_def)


lemma find_absent_full:
  "shape_absent s stack d \<Longrightarrow> g_num_stack_samples s \<ge> MAX_STACK_SAMPLES \<Longrightarrow>
     find_or_create_stack_sample stack d s = (- 1, s)"
  by (simp add: find_or_create_stack_sample_def search_absent)

lemma find_absent_room:
  "shape_absent s stack d \<Longrightarrow> g_num_stack_samples s < MAX_STACK_SAMPLES \<Longrightarrow>
     find_or_create_stack_sample stack d s =
       (g_num_stack_samples s,
        s \<lparr> g_num_stack_samples := g_num_stack_samples s + 1,
            g_stack_samples := (g_stack_samples s)
              (g_num_stack_samples s :=
                 (g_stack_samples s (g_num_stack_samples s))
                   \<lparr> depth := d,
                     func_ids := (\<lambda>k. if 0 \<le> k \<and> k < d then stack k
                                      else func_ids (g_stack_samples s (g_num_stack_samples s)) k),
                     time_ns := 0 \<rparr>) \<rparr>)"
  by (simp add: find_or_create_stack_sample_def search_absent Let_def copy_ids_eq)

lemma find_found:
  "search_samples s stack d 0 = Some k \<Longrightarrow> find_or_create_stack_sample stack d s = (k, s)"
  by (simp add: find_or_create_stack_sample_def)

lemma record_absent_full:
  "shape_absent s (tls_current_stack s) (tls_stack_depth s) \<Longrightarrow>
   g_num_stack_samples s \<ge> MAX_STACK_SAMPLES \<Longrightarrow> record_stack_time t s = s"
  by (simp add: record_stack_time_def find_absent_full)

text \<open>
  Claim C4. When the sample table holds \<open>MAX_STACK_SAMPLES\<close> samples and the stack of
  the thread is none of them, the search returns \<open>-1\<close> and changes nothing,
  \<open>record_stack_time\<close> returns the state as it was, and an exit leaves the table and
  its size as they were: every sample keeps its ids, its depth and its time.
\<close>

theorem full_table_drops_new_shape:
  assumes "g_num_stack_samples s \<ge> MAX_STACK_SAMPLES"
    and "shape_absent s (tls_current_stack s) (tls_stack_depth s)"
  shows "find_or_create_stack_sample (tls_current_stack s) (tls_stack_depth s) s = (- 1, s)
       \<and> record_stack_time t s = s
       \<and> g_stack_samples (konpeito_profile_exit f now s) = g_stack_samples s
       \<and> g_num_stack_samples (konpeito_profile_exit f now s) = g_num_stack_samples s"
proof -
  let ?e = "now - entry_time (tls_call_stack s (tls_stack_depth s - 1))"
  let ?s1 = "s \<lparr> g_profiles := (g_profiles s)
                 (f := (g_profiles s f) \<lparr> total_time_ns := total_time_ns (g_profiles s f) + ?e \<rparr>) \<rparr>"
  have abs1: "shape_absent ?s1 (tls_current_stack ?s1) (tls_stack_depth ?s1)"
    using assms(2) by (simp add: shape_absent_def)
  have full1: "g_num_stack_samples ?s1 \<ge> MAX_STACK_SAMPLES"
    using assms(1) by simp
  have r1: "record_stack_time ?e ?s1 = ?s1"
    by (rule record_absent_full [OF abs1 full1])
  have "g_stack_samples (konpeito_profile_exit f now s) = g_stack_samples s
      \<and> g_num_stack_samples (konpeito_profile_exit f now s) = g_num_stack_samples s"
    by (simp add: konpeito_profile_exit_def Let_def r1)
  with assms show ?thesis
    by (simp add: find_absent_full record_absent_full)
qed

text \<open>
  The hypotheses of C4 at a table of 65536 samples of depth 2 and a stack of depth 1.
\<close>

theorem full_table_drops_new_shape_witness:
  "g_num_stack_samples full_table \<ge> MAX_STACK_SAMPLES
   \<and> shape_absent full_table (tls_current_stack full_table) (tls_stack_depth full_table)
   \<and> find_or_create_stack_sample (tls_current_stack full_table) (tls_stack_depth full_table)
        full_table = (- 1, full_table)
   \<and> record_stack_time 500 full_table = full_table
   \<and> g_stack_samples (konpeito_profile_exit 7 600 full_table) = g_stack_samples full_table
   \<and> g_num_stack_samples (konpeito_profile_exit 7 600 full_table) = 65536"
proof -
  have a: "g_num_stack_samples full_table \<ge> MAX_STACK_SAMPLES"
    by (simp add: full_table_def startup_def MAX_STACK_SAMPLES_def)
  have b: "shape_absent full_table (tls_current_stack full_table) (tls_stack_depth full_table)"
    by (simp add: shape_absent_def same_shape_def full_table_def startup_def)
  have c: "g_num_stack_samples full_table = 65536"
    by (simp add: full_table_def startup_def)
  from full_table_drops_new_shape [OF a b, of 500 7 600] a b c show ?thesis by simp
qed

lemma same_shape_cong:
  "stacks_agree d st st' \<Longrightarrow> same_shape smp st d = same_shape smp st' d"
  by (auto simp: same_shape_def stacks_agree_def)


lemma record_absent_room:
  assumes "shape_absent s (tls_current_stack s) (tls_stack_depth s)"
    and "g_num_stack_samples s < MAX_STACK_SAMPLES"
    and "0 \<le> g_num_stack_samples s"
    and "0 < tls_stack_depth s"
  shows "g_num_stack_samples (record_stack_time v s) = g_num_stack_samples s + 1"
    and "g_stack_samples (record_stack_time v s) =
           (g_stack_samples s)
             (g_num_stack_samples s :=
                (g_stack_samples s (g_num_stack_samples s))
                  \<lparr> depth := tls_stack_depth s,
                    func_ids := (\<lambda>k. if 0 \<le> k \<and> k < tls_stack_depth s then tls_current_stack s k
                                     else func_ids (g_stack_samples s (g_num_stack_samples s)) k),
                    time_ns := v \<rparr>)"
  using assms by (simp_all add: record_stack_time_def find_absent_room)

lemma record_found:
  assumes "search_samples s (tls_current_stack s) (tls_stack_depth s) 0 = Some k"
    and "0 < tls_stack_depth s"
  shows "record_stack_time v s =
           s \<lparr> g_stack_samples := (g_stack_samples s)
                 (k := (g_stack_samples s k) \<lparr> time_ns := time_ns (g_stack_samples s k) + v \<rparr>) \<rparr>"
proof -
  from search_samples_Some [OF assms(1)] have "0 \<le> k" by simp
  with assms show ?thesis by (simp add: record_stack_time_def find_found)
qed



lemma record_stack_time_frame:
  "g_profiles (record_stack_time v s) = g_profiles s
   \<and> g_num_functions (record_stack_time v s) = g_num_functions s
   \<and> g_output_path (record_stack_time v s) = g_output_path s
   \<and> g_initialized (record_stack_time v s) = g_initialized s
   \<and> tls_call_stack (record_stack_time v s) = tls_call_stack s
   \<and> tls_stack_depth (record_stack_time v s) = tls_stack_depth s
   \<and> tls_current_stack (record_stack_time v s) = tls_current_stack s"
  by (simp add: record_stack_time_def find_or_create_stack_sample_def Let_def
           split: option.split prod.split)



section \<open>The instrumentation API: enter, exit and initialization\<close>


lemma enter_accepted:
  assumes "g_initialized s \<noteq> 0" "0 \<le> f" "f < MAX_FUNCTIONS" "tls_stack_depth s < MAX_CALL_DEPTH"
  shows "konpeito_profile_enter f nm t s =
     s \<lparr> g_profiles := (g_profiles s)
            (f := (if name (g_profiles s f) = None then (g_profiles s f) \<lparr> name := nm \<rparr>
                   else g_profiles s f)
                  \<lparr> call_count :=
                      call_count (if name (g_profiles s f) = None
                                  then (g_profiles s f) \<lparr> name := nm \<rparr>
                                  else g_profiles s f) + 1 \<rparr>),
          tls_call_stack := (tls_call_stack s)
            (tls_stack_depth s := \<lparr> func_id = f, entry_time = t \<rparr>),
          tls_current_stack := (tls_current_stack s)(tls_stack_depth s := f),
          tls_stack_depth := tls_stack_depth s + 1 \<rparr>"
  using assms by (simp add: konpeito_profile_enter_def Let_def)

lemma enter_accepted_count:
  assumes "g_initialized s \<noteq> 0" "0 \<le> f" "f < MAX_FUNCTIONS" "tls_stack_depth s < MAX_CALL_DEPTH"
  shows "call_count (g_profiles (konpeito_profile_enter f nm t s) g) =
           call_count (g_profiles s g) + (if g = f then 1 else 0)"
    and "tls_stack_depth (konpeito_profile_enter f nm t s) = tls_stack_depth s + 1"
    and "g_initialized (konpeito_profile_enter f nm t s) = g_initialized s"
  by (simp_all add: enter_accepted [OF assms])

lemma exit_frame:
  "g_initialized (konpeito_profile_exit f t s) = g_initialized s
   \<and> g_num_functions (konpeito_profile_exit f t s) = g_num_functions s
   \<and> g_output_path (konpeito_profile_exit f t s) = g_output_path s
   \<and> tls_call_stack (konpeito_profile_exit f t s) = tls_call_stack s
   \<and> tls_current_stack (konpeito_profile_exit f t s) = tls_current_stack s
   \<and> call_count (g_profiles (konpeito_profile_exit f t s) g) = call_count (g_profiles s g)
   \<and> name (g_profiles (konpeito_profile_exit f t s) g) = name (g_profiles s g)"
  by (simp add: konpeito_profile_exit_def Let_def record_stack_time_frame)

lemma exit_pops:
  assumes "g_initialized s \<noteq> 0" "0 \<le> f" "f < MAX_FUNCTIONS" "0 < tls_stack_depth s"
  shows "tls_stack_depth (konpeito_profile_exit f t s) = tls_stack_depth s - 1"
  using assms by (simp add: konpeito_profile_exit_def Let_def record_stack_time_frame)

lemma run_append: "run (cs @ ds) s = run ds (run cs s)"
  by (induction cs arbitrary: s) auto


lemma init_fresh:
  assumes "g_initialized s = 0"
  shows "g_initialized (konpeito_profile_init n p s) = 1"
    and "tls_stack_depth (konpeito_profile_init n p s) = tls_stack_depth s"
    and "0 \<le> f \<and> f < MAX_FUNCTIONS \<Longrightarrow>
           g_profiles (konpeito_profile_init n p s) f =
             (g_profiles s f) \<lparr> name := None, call_count := 0, total_time_ns := 0 \<rparr>"
  using assms by (simp_all add: konpeito_profile_init_def clear_profiles_eq)



lemma enter_full:
  "tls_stack_depth s \<ge> MAX_CALL_DEPTH \<Longrightarrow> konpeito_profile_enter f nm t s = s"
  by (simp add: konpeito_profile_enter_def)

lemma run_replicate_enter:
  assumes "g_initialized s \<noteq> 0" "0 \<le> f" "f < MAX_FUNCTIONS"
    and "tls_stack_depth s + int k \<le> MAX_CALL_DEPTH"
  shows "tls_stack_depth (run (replicate k (Enter f nm t)) s) = tls_stack_depth s + int k
       \<and> call_count (g_profiles (run (replicate k (Enter f nm t)) s) f)
           = call_count (g_profiles s f) + of_nat k
       \<and> g_initialized (run (replicate k (Enter f nm t)) s) = g_initialized s"
  using assms
proof (induction k arbitrary: s)
  case 0
  then show ?case by simp
next
  case (Suc k)
  from Suc.prems(4) have lt: "tls_stack_depth s < MAX_CALL_DEPTH" by simp
  note e = enter_accepted_count [OF Suc.prems(1-3) lt, where nm = nm and t = t]
  let ?s1 = "konpeito_profile_enter f nm t s"
  have "tls_stack_depth (run (replicate k (Enter f nm t)) ?s1) = tls_stack_depth ?s1 + int k
       \<and> call_count (g_profiles (run (replicate k (Enter f nm t)) ?s1) f)
           = call_count (g_profiles ?s1 f) + of_nat k
       \<and> g_initialized (run (replicate k (Enter f nm t)) ?s1) = g_initialized ?s1"
    by (rule Suc.IH) (use e Suc.prems in simp_all)
  with e show ?case by simp
qed










lemma two_open_fields:
  "g_initialized two_open = 1"
  "tls_stack_depth two_open = 2"
  "func_id (tls_call_stack two_open 1) = 1"
  by (simp_all add: two_open_def startup_def konpeito_profile_init_def
        konpeito_profile_enter_def clear_profiles_eq Let_def MAX_FUNCTIONS_def MAX_CALL_DEPTH_def)

text \<open>
  Claim C2, amended. An exit for \<open>f\<close>, made while the stack of the thread is not empty
  and the id of its top frame is not \<open>f\<close>, changes no entry of the function table and
  no sample. It pops one frame when the profiler is initialized and \<open>f\<close> is in range;
  otherwise it is a no-op and the depth stays as it was.
\<close>

theorem mismatched_exit:
  assumes "0 < tls_stack_depth s"
    and "func_id (tls_call_stack s (tls_stack_depth s - 1)) \<noteq> f"
  shows "g_profiles (konpeito_profile_exit f now s) = g_profiles s
       \<and> g_stack_samples (konpeito_profile_exit f now s) = g_stack_samples s
       \<and> g_num_stack_samples (konpeito_profile_exit f now s) = g_num_stack_samples s
       \<and> tls_stack_depth (konpeito_profile_exit f now s) =
           (if g_initialized s \<noteq> 0 \<and> 0 \<le> f \<and> f < MAX_FUNCTIONS
            then tls_stack_depth s - 1 else tls_stack_depth s)"
proof (cases "g_initialized s \<noteq> 0 \<and> 0 \<le> f \<and> f < MAX_FUNCTIONS")
  case False
  then have "konpeito_profile_exit f now s = s"
    by (auto simp: konpeito_profile_exit_def)
  with False show ?thesis by simp
next
  case True
  with assms have "konpeito_profile_exit f now s = s \<lparr> tls_stack_depth := tls_stack_depth s - 1 \<rparr>"
    by (simp add: konpeito_profile_exit_def Let_def)
  with True show ?thesis by simp
qed

text \<open>The hypotheses of C2 at a stack of two frames, the top one of function 1.\<close>

theorem mismatched_exit_witness:
  "0 < tls_stack_depth two_open
   \<and> func_id (tls_call_stack two_open (tls_stack_depth two_open - 1)) \<noteq> 0
   \<and> g_profiles (konpeito_profile_exit 0 300 two_open) = g_profiles two_open
   \<and> g_stack_samples (konpeito_profile_exit 0 300 two_open) = g_stack_samples two_open
   \<and> tls_stack_depth (konpeito_profile_exit 0 300 two_open) = 1"
proof -
  have a: "0 < tls_stack_depth two_open" by (simp add: two_open_fields)
  have b: "func_id (tls_call_stack two_open (tls_stack_depth two_open - 1)) \<noteq> 0"
    by (simp add: two_open_fields)
  from mismatched_exit [OF a b, where now = 300] a b show ?thesis
    by (simp add: two_open_fields MAX_FUNCTIONS_def)
qed

text \<open>
  Claim C2 as it is stated fails for an id out of range: the exit returns at its
  second guard and pops nothing.
\<close>

theorem mismatched_exit_counterexample:
  "0 < tls_stack_depth two_open
   \<and> func_id (tls_call_stack two_open (tls_stack_depth two_open - 1)) \<noteq> 4096
   \<and> tls_stack_depth (konpeito_profile_exit 4096 300 two_open) = tls_stack_depth two_open"
  by (simp add: two_open_fields konpeito_profile_exit_def MAX_FUNCTIONS_def)

lemma enter_initialized:
  "g_initialized (konpeito_profile_enter f nm t s) = g_initialized s"
  by (simp add: konpeito_profile_enter_def Let_def)

lemma init_initialized: "g_initialized (konpeito_profile_init n p s) \<noteq> 0"
  by (simp add: konpeito_profile_init_def)

lemma init_again: "g_initialized s \<noteq> 0 \<Longrightarrow> konpeito_profile_init n p s = s"
  by (simp add: konpeito_profile_init_def)

lemma run_stays_initialized:
  "no_finalize cs \<Longrightarrow> g_initialized s \<noteq> 0 \<Longrightarrow> g_initialized (run cs s) \<noteq> 0"
proof (induction cs arbitrary: s)
  case Nil
  then show ?case by simp
next
  case (Cons c cs)
  show ?case
  proof (cases c)
    case (Init n p)
    with Cons show ?thesis by (simp add: init_again)
  next
    case (Enter f nm t)
    with Cons show ?thesis by (simp add: enter_initialized)
  next
    case (Exit f t)
    with Cons exit_frame [of f t s] show ?thesis by simp
  next
    case (Finalize co)
    with Cons.prems show ?thesis by simp
  qed
qed

text \<open>
  Claim C9, amended. After a call of \<open>konpeito_profile_init\<close> and any calls that
  follow it, none of them \<open>konpeito_profile_finalize\<close>, a further call of
  \<open>konpeito_profile_init\<close> returns the state as it was: the function count, the path,
  the function table and the sample table with it.
\<close>

theorem init_twice:
  assumes "no_finalize cs"
  shows "konpeito_profile_init n' p' (run cs (konpeito_profile_init n p s))
           = run cs (konpeito_profile_init n p s)"
proof -
  have "g_initialized (konpeito_profile_init n p s) \<noteq> 0"
    by (rule init_initialized)
  with assms have "g_initialized (run cs (konpeito_profile_init n p s)) \<noteq> 0"
    by (rule run_stays_initialized)
  then show ?thesis
    by (rule init_again)
qed

text \<open>The hypothesis of C9 at the six calls of \<open>demo_calls\<close>.\<close>

theorem init_twice_witness:
  "no_finalize demo_calls
   \<and> konpeito_profile_init 5 (Some ''other.json'')
         (run demo_calls (konpeito_profile_init 10 None startup))
       = run demo_calls (konpeito_profile_init 10 None startup)"
proof -
  have a: "no_finalize demo_calls" by (simp add: demo_calls_def)
  from init_twice [OF a] a show ?thesis by simp
qed

text \<open>
  Claim C9 as it is stated fails once \<open>konpeito_profile_finalize\<close> has run: it clears
  \<open>g_initialized\<close>, and the next \<open>konpeito_profile_init\<close> sets the function count and
  clears the function table again.
\<close>

theorem init_twice_counterexample:
  "g_num_functions after_finalize = 10
   \<and> call_count (g_profiles after_finalize 0) = 1
   \<and> g_num_functions (konpeito_profile_init 5 None after_finalize) = 5
   \<and> call_count (g_profiles (konpeito_profile_init 5 None after_finalize) 0) = 0"
  by (simp add: after_finalize_def startup_def konpeito_profile_init_def
        konpeito_profile_enter_def konpeito_profile_exit_def konpeito_profile_finalize_def
        record_stack_time_frame clear_profiles_eq Let_def MAX_FUNCTIONS_def MAX_CALL_DEPTH_def)

lemma run_enters_full:
  "enters_only es \<Longrightarrow> tls_stack_depth s \<ge> MAX_CALL_DEPTH \<Longrightarrow> run es s = s"
proof (induction es)
  case Nil
  then show ?case by simp
next
  case (Cons c es)
  then show ?case by (cases c) (simp_all add: enter_full)
qed

lemma exit_matched:
  assumes "g_initialized s \<noteq> 0" "0 < tls_stack_depth s"
    and "func_id (tls_call_stack s (tls_stack_depth s - 1)) = f"
    and "0 \<le> f" "f < MAX_FUNCTIONS"
  shows "total_time_ns (g_profiles (konpeito_profile_exit f t s) g) =
           total_time_ns (g_profiles s g)
           + (if g = f then t - entry_time (tls_call_stack s (tls_stack_depth s - 1)) else 0)"
  using assms by (simp add: konpeito_profile_exit_def Let_def record_stack_time_frame)

lemma run_exits_for:
  assumes "g_initialized s \<noteq> 0"
    and "frames_in_range s"
    and "int (length ts) \<le> tls_stack_depth s"
  shows "tls_stack_depth (run (exits_for (tls_call_stack s) (tls_stack_depth s) ts) s)
           = tls_stack_depth s - int (length ts)
       \<and> tls_call_stack (run (exits_for (tls_call_stack s) (tls_stack_depth s) ts) s)
           = tls_call_stack s
       \<and> total_time_ns (g_profiles (run (exits_for (tls_call_stack s) (tls_stack_depth s) ts) s) f)
           = total_time_ns (g_profiles s f)
             + attributed (tls_call_stack s) (tls_stack_depth s) ts f"
  using assms
proof (induction ts arbitrary: s)
  case Nil
  then show ?case by simp
next
  case (Cons t ts)
  let ?d = "tls_stack_depth s"
  let ?g = "func_id (tls_call_stack s (?d - 1))"
  let ?s1 = "konpeito_profile_exit ?g t s"
  from Cons.prems(3) have pos: "0 < ?d" by simp
  with Cons.prems(2) have rng: "0 \<le> ?g" "?g < MAX_FUNCTIONS"
    by (simp_all add: frames_in_range_def)
  note fr = exit_frame [of ?g t s]
  note pop = exit_pops [OF Cons.prems(1) rng pos, where t = t]
  note tm = exit_matched [OF Cons.prems(1) pos refl rng, where t = t and g = f]
  have ih: "tls_stack_depth (run (exits_for (tls_call_stack ?s1) (tls_stack_depth ?s1) ts) ?s1)
           = tls_stack_depth ?s1 - int (length ts)
       \<and> tls_call_stack (run (exits_for (tls_call_stack ?s1) (tls_stack_depth ?s1) ts) ?s1)
           = tls_call_stack ?s1
       \<and> total_time_ns
            (g_profiles (run (exits_for (tls_call_stack ?s1) (tls_stack_depth ?s1) ts) ?s1) f)
           = total_time_ns (g_profiles ?s1 f)
             + attributed (tls_call_stack ?s1) (tls_stack_depth ?s1) ts f"
  proof (rule Cons.IH)
    show "g_initialized ?s1 \<noteq> 0" using fr Cons.prems(1) by simp
    show "frames_in_range ?s1"
      using Cons.prems(2) fr pop by (simp add: frames_in_range_def)
    show "int (length ts) \<le> tls_stack_depth ?s1" using pop Cons.prems(3) by simp
  qed
  have stk: "tls_call_stack ?s1 = tls_call_stack s" using fr by simp
  from ih show ?case
    unfolding stk pop tm by (simp add: add.assoc)
qed

text \<open>
  The stack of the thread is at \<open>MAX_CALL_DEPTH\<close>. Any enters made then return the
  state as it was, so no frame is changed. If no exit is made for a dropped enter, the
  exits that follow for the top frames, each with the id of the frame it leaves, pop
  one frame each, leave the frames below as they were, and add to the time of every
  function \<open>f\<close> the elapsed times of exactly those frames that belong to \<open>f\<close>.
\<close>

lemma tracked_exits_at_full_stack:
  assumes "g_initialized s \<noteq> 0"
    and "tls_stack_depth s = MAX_CALL_DEPTH"
    and "frames_in_range s"
    and "enters_only es"
    and "int (length ts) \<le> MAX_CALL_DEPTH"
  shows "run es s = s
       \<and> tls_stack_depth (run (es @ exits_for (tls_call_stack s) MAX_CALL_DEPTH ts) s)
           = MAX_CALL_DEPTH - int (length ts)
       \<and> tls_call_stack (run (es @ exits_for (tls_call_stack s) MAX_CALL_DEPTH ts) s)
           = tls_call_stack s
       \<and> total_time_ns
            (g_profiles (run (es @ exits_for (tls_call_stack s) MAX_CALL_DEPTH ts) s) f)
           = total_time_ns (g_profiles s f) + attributed (tls_call_stack s) MAX_CALL_DEPTH ts f"
proof -
  have e: "run es s = s"
    by (rule run_enters_full) (use assms in simp_all)
  have l: "int (length ts) \<le> tls_stack_depth s" using assms by simp
  from run_exits_for [OF assms(1) assms(3) l, where f = f] e show ?thesis
    by (simp add: run_append assms(2))
qed

text \<open>
  An example: a stack of 256 frames, one enter that is dropped and the exits of the two
  top frames, which belong to the functions 0 and 2.
\<close>

lemma tracked_exits_at_full_stack_example:
  "g_initialized at_max_depth \<noteq> 0
   \<and> tls_stack_depth at_max_depth = MAX_CALL_DEPTH
   \<and> frames_in_range at_max_depth
   \<and> enters_only [Enter 5 (Some ''deep'') 700]
   \<and> int (length [1000, 1500 :: u64]) \<le> MAX_CALL_DEPTH
   \<and> run [Enter 5 (Some ''deep'') 700] at_max_depth = at_max_depth
   \<and> exits_for (tls_call_stack at_max_depth) MAX_CALL_DEPTH [1000, 1500] = [Exit 0 1000, Exit 2 1500]
   \<and> tls_stack_depth (run [Enter 5 (Some ''deep'') 700, Exit 0 1000, Exit 2 1500] at_max_depth) = 254
   \<and> total_time_ns
        (g_profiles (run [Enter 5 (Some ''deep'') 700, Exit 0 1000, Exit 2 1500] at_max_depth) 2)
       = 1400"
proof -
  have a: "g_initialized at_max_depth \<noteq> 0"
    and b: "tls_stack_depth at_max_depth = MAX_CALL_DEPTH"
    by (simp_all add: at_max_depth_def startup_def MAX_CALL_DEPTH_def)
  have m: "i mod 3 < 4096" for i :: int
  proof -
    have "i mod 3 < 3" by simp
    then show ?thesis by arith
  qed
  have c: "frames_in_range at_max_depth"
    by (simp add: frames_in_range_def at_max_depth_def startup_def MAX_FUNCTIONS_def m)
  have d: "enters_only [Enter 5 (Some ''deep'') 700]" by simp
  have e: "int (length [1000, 1500 :: u64]) \<le> MAX_CALL_DEPTH" by (simp add: MAX_CALL_DEPTH_def)
  have x: "exits_for (tls_call_stack at_max_depth) MAX_CALL_DEPTH [1000, 1500]
             = [Exit 0 1000, Exit 2 1500]"
    by (simp add: at_max_depth_def startup_def MAX_CALL_DEPTH_def)
  have y: "attributed (tls_call_stack at_max_depth) MAX_CALL_DEPTH [1000, 1500] 2 = 1400"
    by (simp add: at_max_depth_def startup_def MAX_CALL_DEPTH_def)
  have z: "total_time_ns (g_profiles at_max_depth 2) = 0"
    by (simp add: at_max_depth_def startup_def)
  note th = tracked_exits_at_full_stack [OF a b c d e, where f = 2]
  from th have e1: "konpeito_profile_enter 5 (Some ''deep'') 700 at_max_depth = at_max_depth"
    by simp
  from th a b c d e x y z show ?thesis
    by (simp add: e1 MAX_CALL_DEPTH_def)
qed

text \<open>
  The exit of a call whose enter was dropped is not dropped. It finds the stack at
  \<open>MAX_CALL_DEPTH\<close> and pops the top frame, which belongs to another call.
\<close>

lemma exit_after_dropped_enter:
  assumes "g_initialized s \<noteq> 0" "tls_stack_depth s = MAX_CALL_DEPTH"
    and "0 \<le> f" "f < MAX_FUNCTIONS"
  shows "tls_stack_depth (run [Enter f nm t, Exit f t'] s) = MAX_CALL_DEPTH - 1"
proof -
  have "konpeito_profile_enter f nm t s = s"
    by (rule enter_full) (simp add: assms(2))
  moreover have "tls_stack_depth (konpeito_profile_exit f t' s) = tls_stack_depth s - 1"
    by (rule exit_pops) (use assms in \<open>simp_all add: MAX_CALL_DEPTH_def\<close>)
  ultimately show ?thesis by (simp add: assms(2))
qed

lemma enter_other:
  "g \<noteq> f \<Longrightarrow> g_profiles (konpeito_profile_enter f nm t s) g = g_profiles s g"
  by (simp add: konpeito_profile_enter_def Let_def)

lemma run_replicate_enter_other:
  "g \<noteq> f \<Longrightarrow> g_profiles (run (replicate k (Enter f nm t)) s) g = g_profiles s g"
proof (induction k arbitrary: s)
  case 0
  then show ?case by simp
next
  case (Suc k)
  have "g_profiles (run (replicate k (Enter f nm t)) (konpeito_profile_enter f nm t s)) g
          = g_profiles (konpeito_profile_enter f nm t s) g"
    by (rule Suc.IH [OF Suc.prems])
  with enter_other [OF Suc.prems] show ?case by simp
qed

lemma deep_stack_fields:
  "g_initialized deep_stack = 1"
  "tls_stack_depth deep_stack = 256"
  "tls_call_stack deep_stack 253 = \<lparr> func_id = 1, entry_time = 100 \<rparr>"
  "tls_call_stack deep_stack 254 = \<lparr> func_id = 2, entry_time = 100 \<rparr>"
  "tls_call_stack deep_stack 255 = \<lparr> func_id = 3, entry_time = 100 \<rparr>"
  "total_time_ns (g_profiles deep_stack 2) = 0"
  "total_time_ns (g_profiles deep_stack 3) = 0"
proof -
  let ?s0 = "konpeito_profile_init 10 None startup"
  let ?en = "Enter 1 (Some ''a'') 100"
  let ?s1 = "run (replicate 253 ?en) ?s0"
  have z: "g_initialized startup = 0" "tls_stack_depth startup = 0"
    by (simp_all add: startup_def)
  note i = init_fresh [OF z(1), where n = 10 and p = None]
  have r: "tls_stack_depth ?s1 = tls_stack_depth ?s0 + int 253
         \<and> call_count (g_profiles ?s1 1) = call_count (g_profiles ?s0 1) + of_nat 253
         \<and> g_initialized ?s1 = g_initialized ?s0"
    by (rule run_replicate_enter)
       (use i z in \<open>simp_all add: MAX_FUNCTIONS_def MAX_CALL_DEPTH_def\<close>)
  then have d1: "tls_stack_depth ?s1 = 253" and i1: "g_initialized ?s1 = 1"
    using i z by simp_all
  have p: "g_profiles ?s1 2 = g_profiles ?s0 2" "g_profiles ?s1 3 = g_profiles ?s0 3"
    by (simp_all add: run_replicate_enter_other)
  have p0: "total_time_ns (g_profiles ?s0 2) = 0" "total_time_ns (g_profiles ?s0 3) = 0"
    using i(3) [where f = 2] i(3) [where f = 3] by (simp_all add: MAX_FUNCTIONS_def)
  have split: "replicate 254 ?en = replicate 253 ?en @ [?en]"
    using replicate_add [of 253 1 ?en] by simp
  have ds: "deep_stack =
      konpeito_profile_enter 3 (Some ''c'') 100
        (konpeito_profile_enter 2 (Some ''b'') 100
          (konpeito_profile_enter 1 (Some ''a'') 100 ?s1))"
    by (simp add: deep_stack_def split run_append)
  show "g_initialized deep_stack = 1"
    "tls_stack_depth deep_stack = 256"
    "tls_call_stack deep_stack 253 = \<lparr> func_id = 1, entry_time = 100 \<rparr>"
    "tls_call_stack deep_stack 254 = \<lparr> func_id = 2, entry_time = 100 \<rparr>"
    "tls_call_stack deep_stack 255 = \<lparr> func_id = 3, entry_time = 100 \<rparr>"
    "total_time_ns (g_profiles deep_stack 2) = 0"
    "total_time_ns (g_profiles deep_stack 3) = 0"
    unfolding ds
    by (simp_all add: konpeito_profile_enter_def Let_def d1 i1 p p0
          MAX_FUNCTIONS_def MAX_CALL_DEPTH_def)
qed

lemma exit_unmatched:
  assumes "g_initialized s \<noteq> 0" "0 \<le> f" "f < MAX_FUNCTIONS" "0 < tls_stack_depth s"
    and "func_id (tls_call_stack s (tls_stack_depth s - 1)) \<noteq> f"
  shows "konpeito_profile_exit f t s = s \<lparr> tls_stack_depth := tls_stack_depth s - 1 \<rparr>"
  using assms by (simp add: konpeito_profile_exit_def Let_def)

text \<open>
  Claim C5 against the code. The thread has 256 calls open, the innermost two of the
  functions 2 and 3, both entered at 100. A call of function 4 is made and returns,
  then the calls of 3 and 2 return. The enter of 4 is dropped and changes nothing. The
  exit of 4 is not dropped: it pops the frame of 3. The exit of 3 then finds the frame
  of 2 and the exit of 2 the frame of 1; neither matches, and no time is added to the
  functions 3 and 2. Without the call of 4 the same two exits add 900 and 1400.
\<close>

theorem exit_of_dropped_enter_shifts_frames:
  "tls_stack_depth deep_stack = MAX_CALL_DEPTH
   \<and> tls_call_stack deep_stack 255 = \<lparr> func_id = 3, entry_time = 100 \<rparr>
   \<and> tls_call_stack deep_stack 254 = \<lparr> func_id = 2, entry_time = 100 \<rparr>
   \<and> run [Enter 4 (Some ''d'') 700] deep_stack = deep_stack
   \<and> tls_stack_depth (run [Enter 4 (Some ''d'') 700, Exit 4 800] deep_stack) = 255
   \<and> tls_stack_depth (run overflow_calls deep_stack) = 253
   \<and> total_time_ns (g_profiles (run overflow_calls deep_stack) 3) = 0
   \<and> total_time_ns (g_profiles (run overflow_calls deep_stack) 2) = 0
   \<and> total_time_ns (g_profiles (run [Exit 3 1000, Exit 2 1500] deep_stack) 3) = 900
   \<and> total_time_ns (g_profiles (run [Exit 3 1000, Exit 2 1500] deep_stack) 2) = 1400"
proof -
  note f = deep_stack_fields
  have e: "konpeito_profile_enter 4 (Some ''d'') 700 deep_stack = deep_stack"
    by (rule enter_full) (simp add: f MAX_CALL_DEPTH_def)
  let ?s1 = "deep_stack \<lparr> tls_stack_depth := 255 \<rparr>"
  let ?s2 = "deep_stack \<lparr> tls_stack_depth := 254 \<rparr>"
  let ?s3 = "deep_stack \<lparr> tls_stack_depth := 253 \<rparr>"
  have x1: "konpeito_profile_exit 4 800 deep_stack = ?s1"
    using exit_unmatched [of deep_stack 4 800] by (simp add: f MAX_FUNCTIONS_def)
  have x2: "konpeito_profile_exit 3 1000 ?s1 = ?s2"
    using exit_unmatched [of ?s1 3 1000] by (simp add: f MAX_FUNCTIONS_def)
  have x3: "konpeito_profile_exit 2 1500 ?s2 = ?s3"
    using exit_unmatched [of ?s2 2 1500] by (simp add: f MAX_FUNCTIONS_def)
  have over: "run overflow_calls deep_stack = ?s3"
    by (simp add: overflow_calls_def e x1 x2 x3)
  let ?t1 = "konpeito_profile_exit 3 1000 deep_stack"
  have m1: "total_time_ns (g_profiles ?t1 g)
              = total_time_ns (g_profiles deep_stack g) + (if g = 3 then 900 else 0)" for g
    using exit_matched [of deep_stack 3 1000 g] by (simp add: f MAX_FUNCTIONS_def)
  have d1: "tls_stack_depth ?t1 = 255" "g_initialized ?t1 = 1"
    "tls_call_stack ?t1 = tls_call_stack deep_stack"
    using exit_pops [of deep_stack 3 1000] exit_frame [of 3 1000 deep_stack]
    by (simp_all add: f MAX_FUNCTIONS_def)
  have m2: "total_time_ns (g_profiles (konpeito_profile_exit 2 1500 ?t1) g)
              = total_time_ns (g_profiles ?t1 g) + (if g = 2 then 1400 else 0)" for g
    using exit_matched [of ?t1 2 1500 g] by (simp add: d1 f MAX_FUNCTIONS_def)
  show ?thesis
    by (simp add: over e x1 f m1 m2 MAX_CALL_DEPTH_def)
qed

section \<open>The summary: which entries of the function table it reads\<close>

lemma profiles_agree_step:
  "profiles_agree i n s s' \<Longrightarrow> i < n \<Longrightarrow>
     g_profiles s' i = g_profiles s i \<and> profiles_agree (i + 1) n s s'"
  by (simp add: profiles_agree_def)

lemma sum_total_time_agree:
  assumes "g_num_functions s' = g_num_functions s"
    and "profiles_agree i (g_num_functions s) s s'"
  shows "sum_total_time s' i acc = sum_total_time s i acc"
  using assms(2)
proof (induction "nat (g_num_functions s - i)" arbitrary: i acc)
  case 0
  then have "\<not> i < g_num_functions s" by simp
  then show ?case
    using sum_total_time.simps [of s i acc] sum_total_time.simps [of s' i acc] assms(1)
    by simp
next
  case (Suc m)
  then have lt: "i < g_num_functions s" by simp
  note st = profiles_agree_step [OF Suc.prems lt]
  have m: "m = nat (g_num_functions s - (i + 1))" using Suc.hyps(2) by simp
  have ih: "sum_total_time s' (i + 1) a = sum_total_time s (i + 1) a" for a
    using Suc.hyps(1) [OF m] st by simp
  show ?case
    using sum_total_time.simps [of s i acc] sum_total_time.simps [of s' i acc] assms(1) lt st ih
    by simp
qed

lemma json_functions_agree:
  assumes "g_num_functions s' = g_num_functions s"
    and "profiles_agree i (g_num_functions s) s s'"
  shows "json_functions s' i = json_functions s i"
  using assms(2)
proof (induction "nat (g_num_functions s - i)" arbitrary: i)
  case 0
  then have "\<not> i < g_num_functions s" by simp
  then show ?case
    using json_functions.simps [of s i] json_functions.simps [of s' i] assms(1)
    by simp
next
  case (Suc m)
  then have lt: "i < g_num_functions s" by simp
  note st = profiles_agree_step [OF Suc.prems lt]
  have m: "m = nat (g_num_functions s - (i + 1))" using Suc.hyps(2) by simp
  have ih: "json_functions s' (i + 1) = json_functions s (i + 1)"
    using Suc.hyps(1) [OF m] st by simp
  show ?case
    using json_functions.simps [of s i] json_functions.simps [of s' i] assms(1) lt st ih
    by (simp split: option.split)
qed

lemma console_rows_agree:
  assumes "g_num_functions s' = g_num_functions s"
    and "profiles_agree i (g_num_functions s) s s'"
  shows "console_rows s' i = console_rows s i"
  using assms(2)
proof (induction "nat (g_num_functions s - i)" arbitrary: i)
  case 0
  then have "\<not> i < g_num_functions s" by simp
  then show ?case
    using console_rows.simps [of s i] console_rows.simps [of s' i] assms(1)
    by simp
next
  case (Suc m)
  then have lt: "i < g_num_functions s" by simp
  note st = profiles_agree_step [OF Suc.prems lt]
  have m: "m = nat (g_num_functions s - (i + 1))" using Suc.hyps(2) by simp
  have ih: "console_rows s' (i + 1) = console_rows s (i + 1)"
    using Suc.hyps(1) [OF m] st by simp
  show ?case
    using console_rows.simps [of s i] console_rows.simps [of s' i] assms(1) lt st ih
    by (simp split: option.split)
qed

lemma write_summary_agree:
  assumes "g_num_functions s' = g_num_functions s"
    and "profiles_agree 0 (g_num_functions s) s s'"
  shows "write_summary s' = write_summary s"
  by (simp add: write_summary_def sum_total_time_agree [OF assms]
        json_functions_agree [OF assms] console_rows_agree [OF assms])

lemma enter_exit_pair:
  assumes "g_initialized s \<noteq> 0" "0 \<le> f" "f < MAX_FUNCTIONS"
    and "0 \<le> tls_stack_depth s" "tls_stack_depth s < MAX_CALL_DEPTH"
  shows "total_time_ns (g_profiles (konpeito_profile_exit f t' (konpeito_profile_enter f nm t s)) g)
           = total_time_ns (g_profiles s g) + (if g = f then t' - t else 0)"
    and "g \<noteq> f \<Longrightarrow> g_profiles (konpeito_profile_exit f t' (konpeito_profile_enter f nm t s)) g
           = g_profiles s g"
    and "g_num_functions (konpeito_profile_exit f t' (konpeito_profile_enter f nm t s))
           = g_num_functions s"
    and "g_initialized (konpeito_profile_exit f t' (konpeito_profile_enter f nm t s))
           = g_initialized s"
    and "g_output_path (konpeito_profile_exit f t' (konpeito_profile_enter f nm t s))
           = g_output_path s"
  using assms
  by (simp_all add: enter_accepted [OF assms(1-3) assms(5)] konpeito_profile_exit_def Let_def
        record_stack_time_frame)

lemma search_samples_table:
  assumes "g_num_stack_samples s' = g_num_stack_samples s"
    and "g_stack_samples s' = g_stack_samples s"
  shows "search_samples s' st d i = search_samples s st d i"
proof (induction "nat (g_num_stack_samples s - i)" arbitrary: i)
  case 0
  then have "\<not> i < g_num_stack_samples s" by simp
  then show ?case
    using search_samples.simps [of s st d i] search_samples.simps [of s' st d i] assms
    by simp
next
  case (Suc m)
  then have lt: "i < g_num_stack_samples s" by simp
  have m: "m = nat (g_num_stack_samples s - (i + 1))" using Suc.hyps(2) by simp
  note ih = Suc.hyps(1) [OF m]
  show ?case
    using search_samples.simps [of s st d i] search_samples.simps [of s' st d i] assms lt ih
    by simp
qed

lemma record_stack_time_num_functions:
  "record_stack_time v (s \<lparr> g_num_functions := k \<rparr>)
     = (record_stack_time v s) \<lparr> g_num_functions := k \<rparr>"
proof -
  have "search_samples (s \<lparr> g_num_functions := k \<rparr>) st d 0 = search_samples s st d 0" for st d
    by (rule search_samples_table) simp_all
  then show ?thesis
    by (simp add: record_stack_time_def find_or_create_stack_sample_def Let_def
          split: option.split)
qed

lemma enter_num_functions:
  "konpeito_profile_enter f nm t (s \<lparr> g_num_functions := k \<rparr>)
     = (konpeito_profile_enter f nm t s) \<lparr> g_num_functions := k \<rparr>"
  by (simp add: konpeito_profile_enter_def Let_def)

lemma exit_num_functions:
  "konpeito_profile_exit f t (s \<lparr> g_num_functions := k \<rparr>)
     = (konpeito_profile_exit f t s) \<lparr> g_num_functions := k \<rparr>"
proof -
  have "record_stack_time v (s \<lparr> g_num_functions := k, g_profiles := ps \<rparr>)
          = (record_stack_time v (s \<lparr> g_profiles := ps \<rparr>)) \<lparr> g_num_functions := k \<rparr>" for v ps
  proof -
    have "s \<lparr> g_num_functions := k, g_profiles := ps \<rparr>
            = s \<lparr> g_profiles := ps, g_num_functions := k \<rparr>" by simp
    then show ?thesis
      by (simp only: record_stack_time_num_functions)
  qed
  then show ?thesis
    by (simp add: konpeito_profile_exit_def Let_def record_stack_time_frame)
qed

text \<open>
  Claim C10. A function id \<open>f\<close> from the configured function count up to, but not
  including, \<open>MAX_FUNCTIONS\<close> passes the guards of enter and exit: an enter counts the
  call, and the exit that matches it adds the elapsed time to the function. Enter and
  exit do not read the configured count at all: they do the same whatever it is. What
  \<open>konpeito_profile_finalize\<close> writes to the JSON file and prints in the table, and
  the total time it uses, are the same as if these calls had not been made, and the
  same whatever the function table holds for \<open>f\<close>: the three loops read only the
  entries below \<open>g_num_functions\<close>.
\<close>

theorem unreported_function_ids:
  assumes "g_initialized s \<noteq> 0"
    and "g_num_functions s \<le> f"
    and "0 \<le> f \<and> f < MAX_FUNCTIONS"
    and "0 \<le> tls_stack_depth s \<and> tls_stack_depth s < MAX_CALL_DEPTH"
  shows "call_count (g_profiles (konpeito_profile_enter f nm t s) f)
           = call_count (g_profiles s f) + 1
       \<and> total_time_ns
            (g_profiles (konpeito_profile_exit f t' (konpeito_profile_enter f nm t s)) f)
           = total_time_ns (g_profiles s f) + (t' - t)
       \<and> konpeito_profile_enter f nm t (s \<lparr> g_num_functions := k \<rparr>)
           = (konpeito_profile_enter f nm t s) \<lparr> g_num_functions := k \<rparr>
       \<and> konpeito_profile_exit f t' (s \<lparr> g_num_functions := k \<rparr>)
           = (konpeito_profile_exit f t' s) \<lparr> g_num_functions := k \<rparr>
       \<and> write_summary (konpeito_profile_exit f t' (konpeito_profile_enter f nm t s))
           = write_summary s
       \<and> write_summary (s \<lparr> g_profiles := (g_profiles s)(f := q) \<rparr>) = write_summary s
       \<and> map_option summary_out
            (snd (konpeito_profile_finalize can_open
                    (konpeito_profile_exit f t' (konpeito_profile_enter f nm t s))))
           = map_option summary_out (snd (konpeito_profile_finalize can_open s))"
proof -
  let ?s2 = "konpeito_profile_exit f t' (konpeito_profile_enter f nm t s)"
  from assms have a: "0 \<le> f" "f < MAX_FUNCTIONS" "0 \<le> tls_stack_depth s"
    "tls_stack_depth s < MAX_CALL_DEPTH" by simp_all
  note ee = enter_exit_pair [OF assms(1) a, where nm = nm and t = t and t' = t']
  have c1: "call_count (g_profiles (konpeito_profile_enter f nm t s) f)
              = call_count (g_profiles s f) + 1"
    using enter_accepted_count(1) [OF assms(1) a(1,2,4), where g = f] by simp
  have c2: "total_time_ns (g_profiles ?s2 f) = total_time_ns (g_profiles s f) + (t' - t)"
    using ee(1) [where g = f] by simp
  have ag: "profiles_agree 0 (g_num_functions s) s ?s2"
    unfolding profiles_agree_def
  proof (intro allI impI)
    fix k assume "0 \<le> k \<and> k < g_num_functions s"
    with assms(2) have "k \<noteq> f" by simp
    then show "g_profiles ?s2 k = g_profiles s k" by (rule ee(2))
  qed
  have c3: "write_summary ?s2 = write_summary s"
    by (rule write_summary_agree [OF ee(3) ag])
  let ?s3 = "s \<lparr> g_profiles := (g_profiles s)(f := q) \<rparr>"
  have "profiles_agree 0 (g_num_functions s) s ?s3"
    using assms(2) by (auto simp: profiles_agree_def)
  then have c4: "write_summary ?s3 = write_summary s"
    by (intro write_summary_agree) simp_all
  have s0: "write_summary (?s2 \<lparr> g_initialized := 0 \<rparr>) = write_summary ?s2"
    "write_summary (s \<lparr> g_initialized := 0 \<rparr>) = write_summary s"
    by (intro write_summary_agree; simp add: profiles_agree_def)+
  have c5: "map_option summary_out (snd (konpeito_profile_finalize can_open ?s2))
              = map_option summary_out (snd (konpeito_profile_finalize can_open s))"
    using assms(1) ee(4,5) by (simp add: konpeito_profile_finalize_def Let_def s0 c3)
  note c6 = enter_num_functions [where f = f and nm = nm and t = t and s = s and k = k]
  note c7 = exit_num_functions [where f = f and t = t' and s = s and k = k]
  from c1 c2 c3 c4 c5 c6 c7 show ?thesis by blast
qed

text \<open>
  The hypotheses of C10 at a profiler configured for 2 functions and the function id 7.
\<close>

theorem unreported_function_ids_witness:
  "g_initialized (konpeito_profile_init 2 None startup) \<noteq> 0
   \<and> g_num_functions (konpeito_profile_init 2 None startup) \<le> 7
   \<and> (0::int) \<le> 7 \<and> 7 < MAX_FUNCTIONS
   \<and> 0 \<le> tls_stack_depth (konpeito_profile_init 2 None startup)
   \<and> tls_stack_depth (konpeito_profile_init 2 None startup) < MAX_CALL_DEPTH
   \<and> call_count (g_profiles (konpeito_profile_enter 7 (Some ''g'') 50
        (konpeito_profile_init 2 None startup)) 7) = 1
   \<and> total_time_ns (g_profiles (konpeito_profile_exit 7 80
        (konpeito_profile_enter 7 (Some ''g'') 50 (konpeito_profile_init 2 None startup))) 7) = 30
   \<and> write_summary (konpeito_profile_exit 7 80
        (konpeito_profile_enter 7 (Some ''g'') 50 (konpeito_profile_init 2 None startup)))
       = write_summary (konpeito_profile_init 2 None startup)"
proof -
  let ?s = "konpeito_profile_init 2 None startup"
  have z: "g_initialized startup = 0" by (simp add: startup_def)
  note i = init_fresh [OF z, where n = 2 and p = None]
  have a: "g_initialized ?s \<noteq> 0" by (rule init_initialized)
  have b: "g_num_functions ?s \<le> 7"
    by (simp add: konpeito_profile_init_def startup_def MAX_FUNCTIONS_def)
  have c: "(0::int) \<le> 7 \<and> 7 < MAX_FUNCTIONS" by (simp add: MAX_FUNCTIONS_def)
  have d: "0 \<le> tls_stack_depth ?s \<and> tls_stack_depth ?s < MAX_CALL_DEPTH"
    using i(2) by (simp add: startup_def MAX_CALL_DEPTH_def)
  have p: "g_profiles ?s 7 = \<lparr> name = None, call_count = 0, total_time_ns = 0 \<rparr>"
    using i(3) [where f = 7] c by (simp add: startup_def)
  from unreported_function_ids [OF a b c d, where nm = "Some ''g''" and t = 50 and t' = 80]
    a b c d p
  show ?thesis by simp
qed

section \<open>The folded file: its lines and its path\<close>

lemma write_samples_eq:
  "write_samples s i =
     map (sample_line s)
       (filter (\<lambda>k. time_ns (g_stack_samples s k) \<noteq> 0) [i..g_num_stack_samples s - 1])"
proof (induction "nat (g_num_stack_samples s - i)" arbitrary: i)
  case 0
  then have "\<not> i < g_num_stack_samples s" by simp
  then show ?case using write_samples.simps [of s i] by simp
next
  case (Suc m)
  then have lt: "i < g_num_stack_samples s" by simp
  have m: "m = nat (g_num_stack_samples s - (i + 1))" using Suc.hyps(2) by simp
  note ih = Suc.hyps(1) [OF m]
  from lt have up: "[i..g_num_stack_samples s - 1] = i # [i + 1..g_num_stack_samples s - 1]"
    by (simp add: upto_rec1)
  show ?case
    using write_samples.simps [of s i] lt ih
    by (simp add: up sample_line_def)
qed

lemma sample_count_unat:
  "unat (sample_count t) = (if unat t div 1000 = 0 then 1 else unat t div 1000)"
proof -
  have d: "unat (t div 1000) = unat t div 1000" by (simp add: unat_div)
  have "(t div 1000 = 0) = (unat (t div 1000) = 0)" by (simp add: unat_eq_0)
  with d show ?thesis by (simp add: sample_count_def Let_def)
qed

lemma sample_count_pos: "Suc 0 \<le> unat (sample_count t)"
  by (simp add: sample_count_unat)

text \<open>
  Claim C6. When the folded file is written, its lines are, in the order of the table,
  the lines of exactly the samples whose time is not zero. The count of a line is the
  time of its sample divided by 1000, rounded down, and 1 where that is 0; so it is at
  least 1.
\<close>

theorem folded_lines:
  assumes "write_flame_graph_folded can_open s = Folded_written fp ls"
  shows "ls = map (sample_line s)
               (filter (\<lambda>k. time_ns (g_stack_samples s k) \<noteq> 0) [0..g_num_stack_samples s - 1])
       \<and> (\<forall>k. unat (snd (sample_line s k)) =
               (if unat (time_ns (g_stack_samples s k)) div 1000 = 0 then 1
                else unat (time_ns (g_stack_samples s k)) div 1000))
       \<and> (\<forall>l \<in> set ls. 1 \<le> unat (snd l))"
proof -
  from assms have ls: "ls = write_samples s 0"
    by (simp add: write_flame_graph_folded_def split: option.splits if_splits)
  have a: "ls = map (sample_line s)
               (filter (\<lambda>k. time_ns (g_stack_samples s k) \<noteq> 0) [0..g_num_stack_samples s - 1])"
    unfolding ls by (rule write_samples_eq)
  have b: "\<forall>k. unat (snd (sample_line s k)) =
               (if unat (time_ns (g_stack_samples s k)) div 1000 = 0 then 1
                else unat (time_ns (g_stack_samples s k)) div 1000)"
    by (simp add: sample_line_def sample_count_unat)
  have c: "\<forall>l \<in> set ls. 1 \<le> unat (snd l)"
    unfolding a by (auto simp: sample_line_def sample_count_pos)
  from a b c show ?thesis by blast
qed

lemma three_samples_fields:
  "g_num_stack_samples three_samples = 3"
  "g_output_path three_samples = ''konpeito_profile.json''"
  "time_ns (g_stack_samples three_samples k) = (if k = 0 then 0 else if k = 1 then 999 else 2500)"
  "depth (g_stack_samples three_samples k) = k + 1"
  "func_ids (g_stack_samples three_samples k) j = j"
  "name (g_profiles three_samples j) = (if j = 0 then Some ''A'' else if j = 1 then Some ''B'' else None)"
  by (simp_all add: three_samples_def startup_def)

lemma default_folded_path: "folded_path ''konpeito_profile.json'' = Some ''konpeito_profile.folded''"
  by (simp add: folded_path_def)

text \<open>
  The hypothesis of C6 at a table of three samples with the times 0, 999 and 2500: two
  lines, with the counts 1 and 2.
\<close>

theorem folded_lines_witness:
  "write_flame_graph_folded (\<lambda>_. True) three_samples
     = Folded_written ''konpeito_profile.folded'' [(''A;B'', 1), (''A;B'', 2)]
   \<and> [(''A;B'', 1), (''A;B'', 2)] = map (sample_line three_samples) [1, 2]
   \<and> unat (snd (sample_line three_samples 1)) = 1"
proof -
  have st: "write_stack (g_profiles three_samples) (g_stack_samples three_samples 1) 0 = ''A;B''"
    "write_stack (g_profiles three_samples) (g_stack_samples three_samples 2) 0 = ''A;B''"
    by (simp_all add: write_stack.simps three_samples_fields)
  have sc: "sample_count 999 = 1" "sample_count 2500 = 2"
    by (simp_all add: sample_count_def)
  have w: "write_flame_graph_folded (\<lambda>_. True) three_samples
     = Folded_written ''konpeito_profile.folded'' [(''A;B'', 1), (''A;B'', 2)]"
    by (simp add: write_flame_graph_folded_def default_folded_path write_samples.simps
          three_samples_fields st sc)
  have l: "map (sample_line three_samples) [1, 2] = [(''A;B'', 1), (''A;B'', 2)]"
    by (simp add: sample_line_def st sc three_samples_fields)
  from folded_lines [OF w] w l show ?thesis
    by (simp add: three_samples_fields)
qed

lemma strstr_None: "strstr h n = None \<Longrightarrow> take (length n) (drop k h) \<noteq> n"
proof (induction h arbitrary: k)
  case Nil
  then show ?case by (auto split: if_splits)
next
  case (Cons c cs)
  from Cons.prems have a: "take (length n) (c # cs) \<noteq> n" and b: "strstr cs n = None"
    by (auto split: if_splits)
  show ?case
  proof (cases k)
    case 0
    with a show ?thesis by simp
  next
    case (Suc k')
    with Cons.IH [OF b, of k'] show ?thesis by simp
  qed
qed

lemma strstr_Some:
  "strstr h n = Some k \<Longrightarrow>
     take (length n) (drop k h) = n \<and> (\<forall>j < k. take (length n) (drop j h) \<noteq> n)"
proof (induction h arbitrary: k)
  case Nil
  then show ?case by (auto split: if_splits)
next
  case (Cons c cs)
  show ?case
  proof (cases "take (length n) (c # cs) = n")
    case True
    with Cons.prems have "k = 0" by simp
    with True show ?thesis by simp
  next
    case False
    with Cons.prems obtain k' where k: "k = Suc k'" and s: "strstr cs n = Some k'"
      by auto
    note ih = Cons.IH [OF s]
    have "\<forall>j < k. take (length n) (drop j (c # cs)) \<noteq> n"
    proof (intro allI impI)
      fix j assume "j < k"
      show "take (length n) (drop j (c # cs)) \<noteq> n"
      proof (cases j)
        case 0
        with False show ?thesis by simp
      next
        case (Suc j')
        with \<open>j < k\<close> k ih show ?thesis by simp
      qed
    qed
    with ih k show ?thesis by simp
  qed
qed

lemma length_json: "length ''.json'' = 5"
  by simp

lemma strstr_json_Some:
  assumes "strstr p ''.json'' = Some k"
  shows "json_at p k \<and> k < length p"
proof -
  from strstr_Some [OF assms] have a: "take 5 (drop k p) = ''.json''"
    unfolding length_json by blast
  then have "drop k p \<noteq> []" by auto
  with a show ?thesis by (simp add: json_at_def)
qed

lemma strstr_json_suffix:
  assumes "json_only_suffix p" "ends_with_json p"
  shows "strstr p ''.json'' = Some (length p - 5)"
proof (cases "strstr p ''.json''")
  case None
  from strstr_None [OF None, of "length p - 5"]
  have "take 5 (drop (length p - 5) p) \<noteq> ''.json''"
    unfolding length_json .
  with assms(2) show ?thesis
    by (simp add: ends_with_json_def json_at_def)
next
  case (Some k)
  from strstr_json_Some [OF Some] assms(1) have "k + 5 = length p"
    by (simp add: json_only_suffix_def)
  with Some show ?thesis by simp
qed

lemma strstr_json_None:
  assumes "json_only_suffix p" "\<not> ends_with_json p"
  shows "strstr p ''.json'' = None"
proof (cases "strstr p ''.json''")
  case None
  then show ?thesis .
next
  case (Some k)
  note j = strstr_json_Some [OF Some]
  with assms(1) have "k + 5 = length p" by (simp add: json_only_suffix_def)
  then have "5 \<le> length p \<and> k = length p - 5" by simp
  with j assms(2) show ?thesis by (simp add: ends_with_json_def)
qed

lemma init_path:
  "g_initialized s = 0 \<Longrightarrow> length p < 1024 \<Longrightarrow>
     g_output_path (konpeito_profile_init n (Some p) s) = p"
  by (simp add: konpeito_profile_init_def)

text \<open>
  Claim C7, amended. A path of fewer than 1024 characters given to
  \<open>konpeito_profile_init\<close> becomes the output path. Let \<open>.json\<close> occur in it nowhere
  but, possibly, as its last five characters. When the path ends in \<open>.json\<close> and has at
  most 1021 characters, the path of the folded file is the path with these five
  characters replaced by \<open>.folded\<close>. When it does not end in \<open>.json\<close>, the path of the
  folded file is the path followed by \<open>.folded\<close>, cut to 1023 characters; nothing is
  cut when the path has at most 1016 characters.
\<close>

theorem folded_path_of_output_path:
  assumes "g_initialized s = 0"
    and "length p < 1024"
    and "json_only_suffix p"
  shows "g_output_path (konpeito_profile_init n (Some p) s) = p
       \<and> (ends_with_json p \<and> length p \<le> 1021 \<longrightarrow>
            folded_path p = Some (take (length p - 5) p @ ''.folded''))
       \<and> (\<not> ends_with_json p \<longrightarrow>
            folded_path p = Some (take 1023 (p @ ''.folded''))
            \<and> (length p \<le> 1016 \<longrightarrow> folded_path p = Some (p @ ''.folded'')))"
proof -
  from assms(2) have tk: "take 1023 p = p" by simp
  have a: "folded_path p = Some (take (length p - 5) p @ ''.folded'')"
    if "ends_with_json p" "length p \<le> 1021"
    using strstr_json_suffix [OF assms(3) that(1)] that
    by (simp add: folded_path_def tk ends_with_json_def)
  have b: "folded_path p = Some (take 1023 (p @ ''.folded''))" if "\<not> ends_with_json p"
    using strstr_json_None [OF assms(3) that] assms(2)
    by (simp add: folded_path_def tk)
  have c: "take 1023 (p @ ''.folded'') = p @ ''.folded''" if "length p \<le> 1016"
    using that by simp
  from a b c init_path [OF assms(1,2)] show ?thesis by simp
qed

text \<open>The hypotheses of C7 at the paths \<open>out/prof.json\<close> and \<open>trace.out\<close>.\<close>

theorem folded_path_of_output_path_witness:
  "g_initialized startup = 0
   \<and> length ''out/prof.json'' < 1024
   \<and> json_only_suffix ''out/prof.json''
   \<and> ends_with_json ''out/prof.json''
   \<and> g_output_path (konpeito_profile_init 10 (Some ''out/prof.json'') startup) = ''out/prof.json''
   \<and> folded_path ''out/prof.json'' = Some ''out/prof.folded''
   \<and> length ''trace.out'' < 1024
   \<and> json_only_suffix ''trace.out''
   \<and> \<not> ends_with_json ''trace.out''
   \<and> folded_path ''trace.out'' = Some ''trace.out.folded''"
proof -
  have a: "g_initialized startup = 0" by (simp add: startup_def)
  have b: "length ''out/prof.json'' < 1024" by simp
  have c: "json_only_suffix ''out/prof.json''"
    by (simp add: json_only_suffix_def json_at_def less_Suc_eq)
  have d: "ends_with_json ''out/prof.json''"
    by (simp add: ends_with_json_def json_at_def)
  have b': "length ''trace.out'' < 1024" by simp
  have c': "json_only_suffix ''trace.out''"
    by (simp add: json_only_suffix_def json_at_def less_Suc_eq)
  have d': "\<not> ends_with_json ''trace.out''"
    by (simp add: ends_with_json_def json_at_def)
  from folded_path_of_output_path [OF a b c, where n = 10]
    folded_path_of_output_path [OF a b' c', where n = 10] a b c d b' c' d'
  show ?thesis by simp
qed

lemma strstr_no_first:
  "n \<noteq> [] \<Longrightarrow> hd n \<notin> set h \<Longrightarrow> strstr h n = None"
proof (induction h)
  case Nil
  then show ?case by simp
next
  case (Cons c cs)
  have "take (length n) (c # cs) \<noteq> n"
  proof
    assume "take (length n) (c # cs) = n"
    with Cons.prems(1) have "hd n = c" by (cases n) auto
    with Cons.prems(2) show False by simp
  qed
  with Cons show ?case by simp
qed

text \<open>
  Claim C7 as it is stated fails for a long path: \<open>strncat\<close> appends only the
  characters that fit into the buffer of 1024 bytes. A path of 1020 characters that
  does not end in \<open>.json\<close> gets \<open>.fo\<close> appended.
\<close>

theorem folded_path_of_output_path_counterexample:
  "length long_path = 1020
   \<and> g_output_path (konpeito_profile_init 10 (Some long_path) startup) = long_path
   \<and> \<not> ends_with_json long_path
   \<and> folded_path long_path = Some (long_path @ ''.fo'')
   \<and> folded_path long_path \<noteq> Some (long_path @ ''.folded'')"
proof -
  have len: "length long_path = 1020" by (simp add: long_path_def)
  have nodot: "CHR ''.'' \<notin> set long_path" by (simp add: long_path_def)
  have a: "g_output_path (konpeito_profile_init 10 (Some long_path) startup) = long_path"
    by (rule init_path) (simp_all add: startup_def len)
  have b: "\<not> ends_with_json long_path"
  proof
    assume "ends_with_json long_path"
    then have "take 5 (drop 1015 long_path) = ''.json''"
      by (simp add: ends_with_json_def json_at_def len)
    then have "CHR ''.'' \<in> set (take 5 (drop 1015 long_path))" by simp
    then have "CHR ''.'' \<in> set long_path"
      by (blast dest: in_set_takeD in_set_dropD)
    with nodot show False by simp
  qed
  have s: "strstr long_path ''.json'' = None"
    by (rule strstr_no_first) (use nodot in simp_all)
  have c: "folded_path long_path = Some (long_path @ ''.fo'')"
    by (simp add: folded_path_def len s)
  from len a b c show ?thesis by simp
qed

text \<open>
  \<open>strstr\<close> finds the first \<open>.json\<close> of the path, wherever it stands, and the rest of
  the path is lost. The theorem for C7 leaves such paths out.
\<close>

lemma folded_path_inner_json: "folded_path ''run.json.d/out.txt'' = Some ''run.folded''"
  by (simp add: folded_path_def)

lemma join_names_Cons: "join_names (x # xs) = x @ concat (map (\<lambda>nm. '';'' @ nm) xs)"
  by (induction xs arbitrary: x) auto

lemma names_from_step:
  "j < depth smp \<Longrightarrow>
     names_from ps smp j =
       (case name (ps (func_ids smp j)) of
          None \<Rightarrow> names_from ps smp (j + 1)
        | Some nm \<Rightarrow> nm # names_from ps smp (j + 1))"
  by (simp add: names_from_def upto_rec1 [of j] map_filter_simps split: option.split)

lemma names_from_end: "\<not> j < depth smp \<Longrightarrow> names_from ps smp j = []"
  by (simp add: names_from_def map_filter_simps)

lemma write_stack_inner:
  "0 < j \<Longrightarrow> write_stack ps smp j = concat (map (\<lambda>nm. '';'' @ nm) (names_from ps smp j))"
proof (induction "nat (depth smp - j)" arbitrary: j)
  case 0
  then have e: "\<not> j < depth smp" by simp
  then show ?case using write_stack.simps [of ps smp j] by (simp add: names_from_end)
next
  case (Suc m)
  then have lt: "j < depth smp" by simp
  have m: "m = nat (depth smp - (j + 1))" using Suc.hyps(2) by simp
  from Suc.prems have "0 < j + 1" by simp
  note ih = Suc.hyps(1) [OF m this]
  show ?case
    using write_stack.simps [of ps smp j] lt Suc.prems ih
    by (simp add: names_from_step split: option.split)
qed

text \<open>
  Where the outermost entry of a sample has a registered name, the name list written
  for the sample is the join of the registered names of its entries, outermost first.
\<close>

lemma write_stack_named_outer:
  assumes "0 < depth smp" and "name (ps (func_ids smp 0)) = Some n0"
  shows "write_stack ps smp 0 = join_names (names_from ps smp 0)"
proof -
  have "write_stack ps smp 0 = n0 @ write_stack ps smp (0 + 1)"
    using write_stack.simps [of ps smp 0] assms by simp
  also have "write_stack ps smp (0 + 1)
               = concat (map (\<lambda>nm. '';'' @ nm) (names_from ps smp (0 + 1)))"
    by (rule write_stack_inner) simp
  also have "n0 @ \<dots> = join_names (n0 # names_from ps smp (0 + 1))"
    by (simp add: join_names_Cons)
  also have "n0 # names_from ps smp (0 + 1) = names_from ps smp 0"
    using assms by (simp add: names_from_step [of 0])
  finally show ?thesis .
qed

text \<open>
  Where it has none, every registered name of the sample is written after a separator,
  the first one too.
\<close>

lemma write_stack_unnamed_outer:
  assumes "0 < depth smp" and "name (ps (func_ids smp 0)) = None"
  shows "write_stack ps smp 0 = concat (map (\<lambda>nm. '';'' @ nm) (names_from ps smp 0))"
proof -
  have "write_stack ps smp 0 = write_stack ps smp (0 + 1)"
    using write_stack.simps [of ps smp 0] assms by simp
  also have "\<dots> = concat (map (\<lambda>nm. '';'' @ nm) (names_from ps smp (0 + 1)))"
    by (rule write_stack_inner) simp
  also have "names_from ps smp (0 + 1) = names_from ps smp 0"
    using assms by (simp add: names_from_step [of 0])
  finally show ?thesis .
qed

text \<open>
  Claim C8 against the code. Function 0 is entered with a NULL name and calls
  function 1, named \<open>B\<close>. The sample of the stack 0, 1 is written as \<open>;B\<close>: the separator
  is written for every named entry but the one at index 0, also when no name was
  written before it. The join of the registered names would be \<open>B\<close>.
\<close>

theorem folded_names_leading_separator:
  "map_option folded_out (snd (konpeito_profile_finalize (\<lambda>_. True) (run unnamed_outer startup)))
     = Some (Folded_written ''konpeito_profile.folded'' [('';B'', 2), ('''', 3)])"
  by (simp add: unnamed_outer_def startup_def konpeito_profile_init_def clear_profiles_eq
        konpeito_profile_enter_def konpeito_profile_exit_def record_stack_time_def
        find_or_create_stack_sample_def search_samples.simps ids_match.simps copy_ids_eq
        konpeito_profile_finalize_def write_flame_graph_folded_def default_folded_path
        write_samples.simps write_stack.simps sample_count_def Let_def
        MAX_FUNCTIONS_def MAX_CALL_DEPTH_def MAX_STACK_SAMPLES_def)

lemma digit_chars: "char_of (50 :: nat) = CHR ''2''" "char_of (51 :: nat) = CHR ''3''"
  by code_simp+

text \<open>The two lines of that file as they are printed.\<close>

lemma leading_separator_text:
  "map folded_line [('';B'', 2), ('''', 3)] = ['';B 2'' @ [CHR 0x0A], '' 3'' @ [CHR 0x0A]]"
  by (simp add: folded_line_def dec.simps digit_chars)

section \<open>Bounds in the states that are reached\<close>

lemma in_bounds_startup: "in_bounds startup"
  by (auto simp: in_bounds_def startup_def frames_in_range_def stacks_agree_def
        samples_in_range_def shapes_distinct_def MAX_CALL_DEPTH_def MAX_STACK_SAMPLES_def)

lemma in_bounds_profiles:
  "in_bounds (s \<lparr> g_profiles := ps \<rparr>) = in_bounds s"
  by (simp add: in_bounds_def frames_in_range_def samples_in_range_def shapes_distinct_def)

lemma in_bounds_flag:
  "in_bounds (s \<lparr> g_initialized := b \<rparr>) = in_bounds s"
  by (simp add: in_bounds_def frames_in_range_def samples_in_range_def shapes_distinct_def)

lemma in_bounds_init: "in_bounds s \<Longrightarrow> in_bounds (konpeito_profile_init n p s)"
  by (simp add: konpeito_profile_init_def in_bounds_def frames_in_range_def
        samples_in_range_def shapes_distinct_def)

lemma in_bounds_finalize: "in_bounds s \<Longrightarrow> in_bounds (fst (konpeito_profile_finalize co s))"
  by (simp add: konpeito_profile_finalize_def Let_def in_bounds_flag)

lemma in_bounds_enter:
  assumes "in_bounds s"
  shows "in_bounds (konpeito_profile_enter f nm t s)"
proof (cases "g_initialized s \<noteq> 0 \<and> 0 \<le> f \<and> f < MAX_FUNCTIONS
               \<and> tls_stack_depth s < MAX_CALL_DEPTH")
  case False
  with assms show ?thesis by (auto simp: konpeito_profile_enter_def)
next
  case True
  then have a: "g_initialized s \<noteq> 0" "0 \<le> f" "f < MAX_FUNCTIONS"
    "tls_stack_depth s < MAX_CALL_DEPTH" by simp_all
  from assms show ?thesis
    unfolding enter_accepted [OF a]
    using a by (auto simp: in_bounds_def frames_in_range_def stacks_agree_def
          samples_in_range_def shapes_distinct_def)
qed

lemma same_shape_time:
  "same_shape (smp \<lparr> time_ns := v \<rparr>) st d = same_shape smp st d"
  by (simp add: same_shape_def)

lemma in_bounds_record:
  assumes "in_bounds s"
  shows "in_bounds (record_stack_time v s)"
proof (cases "0 < tls_stack_depth s")
  case False
  with assms show ?thesis by (simp add: record_stack_time_def)
next
  case pos: True
  let ?st = "tls_current_stack s"
  let ?d = "tls_stack_depth s"
  let ?n = "g_num_stack_samples s"
  from assms have n0: "0 \<le> ?n" by (simp add: in_bounds_def)
  show ?thesis
  proof (cases "search_samples s ?st ?d 0")
    case (Some k)
    from assms show ?thesis
      unfolding record_found [OF Some pos]
      by (simp add: in_bounds_def frames_in_range_def samples_in_range_def
            shapes_distinct_def same_shape_def)
  next
    case None
    then have ab: "shape_absent s ?st ?d"
      by (simp add: search_samples_None_iff shape_absent_def)
    show ?thesis
    proof (cases "?n < MAX_STACK_SAMPLES")
      case False
      then have "record_stack_time v s = s"
        using ab by (intro record_absent_full) simp_all
      with assms show ?thesis by simp
    next
      case room: True
      note r = record_absent_room [OF ab room n0 pos, of v]
      let ?s' = "record_stack_time v s"
      let ?new = "g_stack_samples ?s' ?n"
      have fr: "tls_stack_depth ?s' = ?d" "tls_call_stack ?s' = tls_call_stack s"
        "tls_current_stack ?s' = ?st"
        by (simp_all add: record_stack_time_frame)
      have old: "g_stack_samples ?s' k = g_stack_samples s k" if "k \<noteq> ?n" for k
        using that by (simp add: r(2))
      have newd: "depth ?new = ?d" and newi: "\<And>j. 0 \<le> j \<and> j < ?d \<Longrightarrow> func_ids ?new j = ?st j"
        by (simp_all add: r(2))
      from assms have cur: "\<And>j. 0 \<le> j \<and> j < ?d \<Longrightarrow>
          0 \<le> ?st j \<and> ?st j < MAX_FUNCTIONS"
        by (simp add: in_bounds_def frames_in_range_def stacks_agree_def)
      have b1: "samples_in_range ?s'"
        unfolding samples_in_range_def
      proof (intro allI impI)
        fix k assume k: "0 \<le> k \<and> k < g_num_stack_samples ?s'"
        show "0 < depth (g_stack_samples ?s' k)
            \<and> depth (g_stack_samples ?s' k) \<le> MAX_CALL_DEPTH
            \<and> (\<forall>j. 0 \<le> j \<and> j < depth (g_stack_samples ?s' k) \<longrightarrow>
                  0 \<le> func_ids (g_stack_samples ?s' k) j
                  \<and> func_ids (g_stack_samples ?s' k) j < MAX_FUNCTIONS)"
        proof (cases "k = ?n")
          case True
          with pos assms newd newi cur show ?thesis
            by (simp add: in_bounds_def)
        next
          case False
          with k r(1) have "0 \<le> k \<and> k < ?n" by simp
          with assms old [OF False] show ?thesis
            by (simp add: in_bounds_def samples_in_range_def)
        qed
      qed
      have newshape: "same_shape smp (func_ids ?new) (depth ?new) = same_shape smp ?st ?d" for smp
        unfolding newd by (rule same_shape_cong) (simp add: stacks_agree_def newi)
      have b2: "shapes_distinct ?s'"
        unfolding shapes_distinct_def
      proof (intro allI impI)
        fix k k' assume k: "0 \<le> k \<and> k < k' \<and> k' < g_num_stack_samples ?s'"
        then have kn: "k \<noteq> ?n" using r(1) by simp
        show "\<not> same_shape (g_stack_samples ?s' k)
                 (func_ids (g_stack_samples ?s' k')) (depth (g_stack_samples ?s' k'))"
        proof (cases "k' = ?n")
          case True
          from k True have "0 \<le> k \<and> k < ?n" by simp
          with ab have "\<not> same_shape (g_stack_samples s k) ?st ?d"
            by (simp add: shape_absent_def)
          then show ?thesis unfolding True newshape old [OF kn] .
        next
          case False
          with k r(1) have "0 \<le> k \<and> k < k' \<and> k' < ?n" by simp
          with assms show ?thesis
            unfolding old [OF kn] old [OF False]
            by (simp add: in_bounds_def shapes_distinct_def)
        qed
      qed
      from assms room b1 b2 show ?thesis
        by (simp add: in_bounds_def fr r(1) frames_in_range_def)
    qed
  qed
qed

lemma in_bounds_pop:
  "in_bounds s \<Longrightarrow> 0 < tls_stack_depth s \<Longrightarrow>
     in_bounds (s \<lparr> tls_stack_depth := tls_stack_depth s - 1 \<rparr>)"
  by (simp add: in_bounds_def frames_in_range_def stacks_agree_def samples_in_range_def
        shapes_distinct_def)

lemma in_bounds_exit:
  assumes "in_bounds s"
  shows "in_bounds (konpeito_profile_exit f t s)"
proof (cases "g_initialized s \<noteq> 0 \<and> 0 \<le> f \<and> f < MAX_FUNCTIONS \<and> 0 < tls_stack_depth s")
  case False
  with assms show ?thesis by (auto simp: konpeito_profile_exit_def)
next
  case True
  show ?thesis
  proof (cases "func_id (tls_call_stack s (tls_stack_depth s - 1)) = f")
    case False
    with True assms show ?thesis
      by (simp add: konpeito_profile_exit_def Let_def in_bounds_pop)
  next
    case m: True
    let ?e = "t - entry_time (tls_call_stack s (tls_stack_depth s - 1))"
    let ?s1 = "s \<lparr> g_profiles := (g_profiles s)
        (f := (g_profiles s f) \<lparr> total_time_ns := total_time_ns (g_profiles s f) + ?e \<rparr>) \<rparr>"
    let ?s2 = "record_stack_time ?e ?s1"
    have "in_bounds ?s1" using assms by (simp add: in_bounds_profiles)
    then have b: "in_bounds ?s2" by (rule in_bounds_record)
    have d: "tls_stack_depth ?s2 = tls_stack_depth s"
      by (simp add: record_stack_time_frame)
    have "konpeito_profile_exit f t s = ?s2 \<lparr> tls_stack_depth := tls_stack_depth ?s2 - 1 \<rparr>"
      using True m by (simp add: konpeito_profile_exit_def Let_def)
    moreover have "in_bounds (?s2 \<lparr> tls_stack_depth := tls_stack_depth ?s2 - 1 \<rparr>)"
      by (rule in_bounds_pop [OF b]) (use True d in simp)
    ultimately show ?thesis by simp
  qed
qed

text \<open>
  In every state that the calls of the API reach from the start of the program, the
  depth of the stack and the size of the sample table are within their arrays, the
  ids of the frames and of the samples are indices of the function table, and no two
  samples have the same stack. So every array access of the code is within bounds,
  and the search of the aggregator never finds more than one sample.
\<close>

lemma in_bounds_step: "in_bounds s \<Longrightarrow> in_bounds (step c s)"
  by (cases c) (simp_all add: in_bounds_init in_bounds_enter in_bounds_exit in_bounds_finalize)

lemma in_bounds_run: "in_bounds s \<Longrightarrow> in_bounds (run cs s)"
  by (induction cs arbitrary: s) (simp_all add: in_bounds_step)

lemma in_bounds_reachable: "in_bounds (run cs startup)"
  by (rule in_bounds_run [OF in_bounds_startup])

text \<open>
  Two calls of function 3 from the top level, 2500 ns each: one sample, with the stack
  3 and 5000 ns.
\<close>

lemma two_calls_one_sample:
  "g_num_stack_samples
     (run [Init 10 None, Enter 3 (Some ''f'') 100, Exit 3 2600,
           Enter 3 (Some ''f'') 5000, Exit 3 7500] startup) = 1
   \<and> time_ns (g_stack_samples
        (run [Init 10 None, Enter 3 (Some ''f'') 100, Exit 3 2600,
              Enter 3 (Some ''f'') 5000, Exit 3 7500] startup) 0) = 5000
   \<and> depth (g_stack_samples
        (run [Init 10 None, Enter 3 (Some ''f'') 100, Exit 3 2600,
              Enter 3 (Some ''f'') 5000, Exit 3 7500] startup) 0) = 1
   \<and> func_ids (g_stack_samples
        (run [Init 10 None, Enter 3 (Some ''f'') 100, Exit 3 2600,
              Enter 3 (Some ''f'') 5000, Exit 3 7500] startup) 0) 0 = 3"
  by (simp add: startup_def konpeito_profile_init_def clear_profiles_eq
        konpeito_profile_enter_def konpeito_profile_exit_def record_stack_time_def
        find_or_create_stack_sample_def search_samples.simps ids_match.simps copy_ids_eq
        Let_def MAX_FUNCTIONS_def MAX_CALL_DEPTH_def MAX_STACK_SAMPLES_def)

end
